theory Spec2Isabelle
  imports Main "HOL-Library.Sublist" "HOL-Library.AList"
begin

section \<open>Strings\<close>

text \<open>
  A string is a list of UTF-16 code units, and the type \<open>char\<close> holds the code
  units below 256 (U+0000 to U+00FF), so \<open>length\<close>, \<open>substring\<close> and
  \<open>includes\<close> count as the source does. On these code units
  \<open>String.prototype.toLowerCase\<close> adds 32 to A to Z (65 to 90) and to the
  capital letters U+00C0 to U+00DE other than the multiplication sign U+00D7, and
  leaves the rest as it is; \<open>String.prototype.trim\<close> strips tab, line feed,
  vertical tab, form feed, carriage return, space and the no-break space U+00A0.
\<close>

definition toLowerCase_char :: "char \<Rightarrow> char" where
  "toLowerCase_char c =
     (let n = (of_char c :: nat)
      in if (65 \<le> n \<and> n \<le> 90) \<or> (192 \<le> n \<and> n \<le> 222 \<and> n \<noteq> 215)
         then char_of (n + 32) else c)"

definition toLowerCase :: "string \<Rightarrow> string" where
  "toLowerCase s = map toLowerCase_char s"

fun startsWith :: "string \<Rightarrow> string \<Rightarrow> bool" where
  "startsWith s [] = True"
| "startsWith [] (k # ks) = False"
| "startsWith (c # cs) (k # ks) = (c = k \<and> startsWith cs ks)"

text \<open>\<open>str_includes s kw\<close> is \<open>s.includes(kw)\<close>: \<open>kw\<close> occurs in \<open>s\<close> as a substring.\<close>

fun str_includes :: "string \<Rightarrow> string \<Rightarrow> bool" where
  "str_includes [] kw = (kw = [])"
| "str_includes (c # cs) kw = (startsWith (c # cs) kw \<or> str_includes cs kw)"

definition substring0 :: "nat \<Rightarrow> string \<Rightarrow> string" where
  "substring0 n s = take n s"

definition is_space :: "char \<Rightarrow> bool" where
  "is_space c = ((of_char c :: nat) \<in> {9, 10, 11, 12, 13, 32, 160})"

definition trim :: "string \<Rightarrow> string" where
  "trim s = rev (dropWhile is_space (rev (dropWhile is_space s)))"

text \<open>JavaScript truthiness of an optional string: present and not empty.\<close>

fun truthy_str :: "string option \<Rightarrow> bool" where
  "truthy_str None = False"
| "truthy_str (Some s) = (s \<noteq> [])"

section \<open>Data model\<close>

text \<open>
  The records follow the interfaces \<open>FeedbackEntry\<close>, \<open>Contradiction\<close>,
  \<open>PipelineItem\<close> and \<open>Project\<close> of the repository. A field whose name is taken
  in HOL or by another record carries a suffix.
\<close>

record feedback_entry =
  id_fb :: string
  itemId :: string
  itemTitle :: string
  stage :: string
  action :: string
  comment :: "string option"
  timestamp :: nat

text \<open>The argument of \<open>addFeedback\<close>: an entry whose id and timestamp may be missing.\<close>

record feedback_input =
  id_in :: "string option"
  itemId_in :: string
  itemTitle_in :: string
  stage_in :: string
  action_in :: string
  comment_in :: "string option"
  timestamp_in :: "nat option"

record pattern_item =
  title_pat :: string
  stage_pat :: string
  comment_pat :: "string option"
  timestamp_pat :: nat

record pattern_rule =
  from_rule :: string
  rule_text :: string
  timestamp_rule :: nat

record patterns =
  approved :: "pattern_item list"
  rejected :: "pattern_item list"
  rules :: "pattern_rule list"

record contradiction =
  id_con :: string
  type_con :: string
  entry1 :: feedback_entry
  entry2 :: feedback_entry
  description_con :: string

record project =
  id_proj :: string
  name_proj :: string
  brandData :: string
  createdAt_proj :: nat
  updatedAt_proj :: nat

datatype pipeline_stage = Strategies | Concepts | Scripts | Storyboards

text \<open>
  What \<open>generate\<close> returns for a script: the fields of the parsed answer that the
  batch route reads, each \<open>None\<close> when absent or falsy.
\<close>

record gen_result =
  script_res :: "string option"
  hooks_res :: "string list option"
  caption_res :: "string option"
  production_notes_res :: "string option"

datatype script_value = Shots string | WholeResult gen_result

record item =
  id_item :: string
  title :: string
  description :: string
  status :: string
  comments :: "string list"
  parentId :: "string option"
  tier :: "string option"
  format :: "string option"
  duration :: "string option"
  heroCopy :: "string option"
  script :: "script_value option"
  hooks :: "string list option"
  caption :: "string option"
  productionNotes :: "string option"
  createdAt :: "nat option"

text \<open>
  The data directory: one JSON document per file, \<open>None\<close> where the file does not
  exist. A document read back is the value that was written. \<open>_projects.json\<close>
  is \<open>projects_doc\<close>, \<open>{projectId}_{stage}.json\<close> is \<open>items_doc projectId stage\<close>,
  \<open>{projectId}_feedback.json\<close> is \<open>feedback_doc projectId\<close> and
  \<open>{projectId}_patterns.json\<close> is \<open>patterns_doc projectId\<close>.
\<close>

record store =
  projects_doc :: "project list option"
  items_doc :: "string \<Rightarrow> pipeline_stage \<Rightarrow> item list option"
  feedback_doc :: "string \<Rightarrow> feedback_entry list option"
  patterns_doc :: "string \<Rightarrow> patterns option"

section \<open>The store: feedback ledger and pattern learning\<close>

definition getFeedback :: "store \<Rightarrow> string \<Rightarrow> feedback_entry list" where
  "getFeedback st projectId =
     (case feedback_doc st projectId of None \<Rightarrow> [] | Some feedback \<Rightarrow> feedback)"

definition getPatterns :: "store \<Rightarrow> string \<Rightarrow> patterns" where
  "getPatterns st projectId =
     (case patterns_doc st projectId of
        None \<Rightarrow> \<lparr>approved = [], rejected = [], rules = []\<rparr>
      | Some p \<Rightarrow> p)"

definition approval_pattern :: "feedback_entry \<Rightarrow> pattern_item" where
  "approval_pattern f =
     \<lparr>title_pat = itemTitle f, stage_pat = stage f, comment_pat = comment f,
      timestamp_pat = timestamp f\<rparr>"

text \<open>
  The filter of \<open>patterns.rules\<close>: \<open>f.comment && f.comment.trim().length > 0\<close>,
  and the rule built from an entry that passes it.
\<close>

definition has_rule_comment :: "feedback_entry \<Rightarrow> bool" where
  "has_rule_comment f =
     (case comment f of None \<Rightarrow> False | Some c \<Rightarrow> c \<noteq> [] \<and> length (trim c) > 0)"

definition revision_rule :: "feedback_entry \<Rightarrow> pattern_rule" where
  "revision_rule f =
     \<lparr>from_rule = itemTitle f,
      rule_text = (case comment f of None \<Rightarrow> [] | Some c \<Rightarrow> c),
      timestamp_rule = timestamp f\<rparr>"

definition updatePatterns :: "store \<Rightarrow> string \<Rightarrow> feedback_entry list \<Rightarrow> patterns \<times> store" where
  "updatePatterns st projectId feedback =
     (let patterns0 = getPatterns st projectId;
          approvedItems = filter (\<lambda>f. action f = ''approved'') feedback;
          rejectedItems = filter (\<lambda>f. action f = ''rejected'') feedback;
          revisionItems = filter (\<lambda>f. action f = ''revision'') feedback;
          patterns1 = patterns0
            \<lparr>approved := map approval_pattern approvedItems,
             rejected := map approval_pattern rejectedItems,
             rules := map revision_rule (filter has_rule_comment revisionItems)\<rparr>
      in (patterns1, st\<lparr>patterns_doc := (patterns_doc st)(projectId := Some patterns1)\<rparr>))"

text \<open>
  \<open>addFeedback st projectId entry u now\<close>: \<open>u\<close> is what \<open>uuid()\<close> returns and
  \<open>now\<close> what \<open>Date.now()\<close> returns, should the call reach them. The result is
  the enriched entry and the store after both writes.
\<close>

definition enrich :: "feedback_input \<Rightarrow> string \<Rightarrow> nat \<Rightarrow> feedback_entry" where
  "enrich entry u now =
     \<lparr>id_fb = (case id_in entry of None \<Rightarrow> u | Some i \<Rightarrow> if i \<noteq> [] then i else u),
      itemId = itemId_in entry,
      itemTitle = itemTitle_in entry,
      stage = stage_in entry,
      action = action_in entry,
      comment = comment_in entry,
      timestamp = (case timestamp_in entry of None \<Rightarrow> now | Some t \<Rightarrow> if t \<noteq> 0 then t else now)\<rparr>"

definition addFeedback ::
  "store \<Rightarrow> string \<Rightarrow> feedback_input \<Rightarrow> string \<Rightarrow> nat \<Rightarrow> feedback_entry \<times> store" where
  "addFeedback st projectId entry u now =
     (let feedback = getFeedback st projectId;
          enriched = enrich entry u now;
          feedback1 = feedback @ [enriched];
          st1 = st\<lparr>feedback_doc := (feedback_doc st)(projectId := Some feedback1)\<rparr>;
          st2 = snd (updatePatterns st1 projectId feedback1)
      in (enriched, st2))"

section \<open>Contradiction detection\<close>

text \<open>
  \<open>uuid k\<close> is the result of the \<open>k\<close>-th call of \<open>uuid()\<close> in one run of
  \<open>findContradictions\<close> (counting from 0). The run calls \<open>uuid()\<close> once for each
  contradiction it pushes, so the next id is the one numbered by the length of the
  list so far.
\<close>

definition push_contradiction ::
  "(nat \<Rightarrow> string) \<Rightarrow> contradiction list \<Rightarrow> string \<Rightarrow> feedback_entry \<Rightarrow> feedback_entry
     \<Rightarrow> string \<Rightarrow> contradiction list" where
  "push_contradiction uuid cs ty a b d =
     cs @ [\<lparr>id_con = uuid (length cs), type_con = ty, entry1 = a, entry2 = b,
            description_con = d\<rparr>]"

text \<open>
  \<open>byItem\<close> is a plain object, \<open>const byItem = {}\<close>: its own properties, in the
  order they were created, are the association list; behind them stands
  \<open>Object.prototype\<close>, whose properties every plain object inherits. A lookup
  \<open>byItem[k]\<close> finds the own property, else the inherited one, else \<open>undefined\<close>.
\<close>

datatype js_error = TypeError

definition inherited_keys :: "string list" where
  "inherited_keys =
     [''constructor'', ''__defineGetter__'', ''__defineSetter__'', ''hasOwnProperty'',
      ''__lookupGetter__'', ''__lookupSetter__'', ''isPrototypeOf'',
      ''propertyIsEnumerable'', ''toString'', ''valueOf'', ''__proto__'',
      ''toLocaleString'']"

text \<open>
  The body of the grouping loop: \<open>if (!byItem[k]) byItem[k] = []; byItem[k].push(e)\<close>.
  An inherited property is a function or an object, so it is truthy and no array
  is created; it has no \<open>push\<close>, and the call throws a \<open>TypeError\<close>.
\<close>

definition byItem_add ::
  "(string \<times> feedback_entry list) list \<Rightarrow> feedback_entry
     \<Rightarrow> js_error + (string \<times> feedback_entry list) list" where
  "byItem_add byItem e =
     (case map_of byItem (itemId e) of
        Some es \<Rightarrow> Inr (AList.update (itemId e) (es @ [e]) byItem)
      | None \<Rightarrow>
          if itemId e \<in> set inherited_keys then Inl TypeError
          else Inr (byItem @ [(itemId e, [e])]))"

text \<open>\<open>feedback.forEach\<close> over the body; an exception ends the loop.\<close>

fun group_from ::
  "(string \<times> feedback_entry list) list \<Rightarrow> feedback_entry list
     \<Rightarrow> js_error + (string \<times> feedback_entry list) list" where
  "group_from byItem [] = Inr byItem"
| "group_from byItem (e # es) =
     (case byItem_add byItem e of
        Inl err \<Rightarrow> Inl err
      | Inr byItem1 \<Rightarrow> group_from byItem1 es)"

definition group_byItem ::
  "feedback_entry list \<Rightarrow> js_error + (string \<times> feedback_entry list) list" where
  "group_byItem feedback = group_from [] feedback"

text \<open>
  \<open>Object.values\<close> lists the values of the own properties: first those whose key
  is an array index (the decimal numeral, without leading zeros, of a number up to
  4294967294), in ascending order of the number, then the others in the order they
  were created.
\<close>

definition is_digit :: "char \<Rightarrow> bool" where
  "is_digit c = (48 \<le> (of_char c :: nat) \<and> (of_char c :: nat) \<le> 57)"

definition index_value :: "string \<Rightarrow> int" where
  "index_value s = foldl (\<lambda>n c. 10 * n + ((of_char c :: int) - 48)) 0 s"

definition is_array_index :: "string \<Rightarrow> bool" where
  "is_array_index s =
     (case s of
        [] \<Rightarrow> False
      | c # cs \<Rightarrow>
          list_all is_digit s \<and> (c \<noteq> CHR ''0'' \<or> cs = []) \<and> index_value s \<le> 4294967294)"

definition object_values :: "(string \<times> 'a) list \<Rightarrow> 'a list" where
  "object_values obj =
     map snd
       (sort_key (\<lambda>p. index_value (fst p)) (filter (\<lambda>p. is_array_index (fst p)) obj) @
        filter (\<lambda>p. \<not> is_array_index (fst p)) obj)"

definition is_direct :: "feedback_entry \<Rightarrow> feedback_entry \<Rightarrow> bool" where
  "is_direct a b =
     ((action a = ''approved'' \<and> action b = ''rejected'') \<or>
      (action a = ''rejected'' \<and> action b = ''approved''))"

definition direct_description :: "feedback_entry \<Rightarrow> feedback_entry \<Rightarrow> string" where
  "direct_description a b =
     ''You '' @ action a @ '' '' @ [CHR 0x22] @ itemTitle a @ [CHR 0x22] @ '' then '' @
     action b @ '' it. Which call do we go with?''"

text \<open>The inner loop over \<open>j\<close>, for \<open>a = entries[i]\<close> and the entries after it.\<close>

fun direct_inner ::
  "(nat \<Rightarrow> string) \<Rightarrow> feedback_entry \<Rightarrow> feedback_entry list \<Rightarrow> contradiction list
     \<Rightarrow> contradiction list" where
  "direct_inner uuid a [] cs = cs"
| "direct_inner uuid a (b # bs) cs =
     direct_inner uuid a bs
       (if is_direct a b
        then push_contradiction uuid cs ''direct'' a b (direct_description a b)
        else cs)"

text \<open>The outer loop over \<open>i\<close>.\<close>

fun direct_outer ::
  "(nat \<Rightarrow> string) \<Rightarrow> feedback_entry list \<Rightarrow> contradiction list \<Rightarrow> contradiction list" where
  "direct_outer uuid [] cs = cs"
| "direct_outer uuid (a # entries) cs = direct_outer uuid entries (direct_inner uuid a entries cs)"

definition themeKeywords :: "(string \<times> string list) list" where
  "themeKeywords =
     [(''shorter'', [''too long'', ''shorter'', ''trim'', ''cut down'']),
      (''longer'', [''too short'', ''longer'', ''expand'', ''more detail'']),
      (''lighter'', [''too dark'', ''lighter'', ''softer'', ''less edgy'']),
      (''darker'', [''darker'', ''edgier'', ''push it'', ''more aggressive'']),
      (''grounded'', [''too absurd'', ''too weird'', ''more realistic'', ''grounded'']),
      (''absurd'', [''more absurd'', ''weirder'', ''push further'', ''too safe''])]"

text \<open>
  The body of \<open>commented.forEach\<close>. Every entry of \<open>commented\<close> has a comment; the
  \<open>None\<close> branch is there for totality only. \<open>themes\<close> is a plain object as well;
  its keys are among the six theme names of \<open>themeKeywords\<close>, none of them a
  property name of \<open>Object.prototype\<close>, and it is read by key only, so it is a map.
\<close>

definition tag_theme ::
  "string \<Rightarrow> feedback_entry \<Rightarrow> (string \<rightharpoonup> feedback_entry list) \<Rightarrow> string \<times> string list
     \<Rightarrow> (string \<rightharpoonup> feedback_entry list)" where
  "tag_theme lower e themes tk =
     (case tk of (theme, keywords) \<Rightarrow>
        if list_ex (\<lambda>kw. str_includes lower kw) keywords
        then themes(theme \<mapsto> (case themes theme of None \<Rightarrow> [] | Some es \<Rightarrow> es) @ [e])
        else themes)"

definition tag_entry ::
  "(string \<rightharpoonup> feedback_entry list) \<Rightarrow> feedback_entry \<Rightarrow> (string \<rightharpoonup> feedback_entry list)" where
  "tag_entry themes e =
     (case comment e of
        None \<Rightarrow> themes
      | Some c \<Rightarrow> foldl (tag_theme (toLowerCase c) e) themes themeKeywords)"

definition build_themes :: "feedback_entry list \<Rightarrow> (string \<rightharpoonup> feedback_entry list)" where
  "build_themes feedback =
     foldl tag_entry Map.empty (filter (\<lambda>e. truthy_str (comment e)) feedback)"

definition pairs :: "(string \<times> string) list" where
  "pairs = [(''shorter'', ''longer''), (''lighter'', ''darker''), (''grounded'', ''absurd'')]"

text \<open>\<open>e.comment?.substring(0, 60)\<close> inside a template string.\<close>

definition comment60 :: "feedback_entry \<Rightarrow> string" where
  "comment60 e = (case comment e of None \<Rightarrow> ''undefined'' | Some c \<Rightarrow> substring0 60 c)"

text \<open>
  The dash of the description is U+2014, a code unit above 255: it stands here as
  the three bytes of its UTF-8 form, as in the JSON the routes send.
\<close>

definition thematic_description :: "feedback_entry \<Rightarrow> feedback_entry \<Rightarrow> string" where
  "thematic_description e1 e2 =
     ''Mixed signals: '' @ [CHR 0x22] @ comment60 e1 @ ''...'' @ [CHR 0x22] @ '' vs '' @
     [CHR 0x22] @ comment60 e2 @ ''...'' @ [CHR 0x22] @ '' '' @
     [CHR 0xE2, CHR 0x80, CHR 0x94] @ '' help me calibrate.''"

text \<open>The body of \<open>pairs.forEach\<close>.\<close>

definition pair_step ::
  "(nat \<Rightarrow> string) \<Rightarrow> (string \<rightharpoonup> feedback_entry list) \<Rightarrow> contradiction list \<Rightarrow> string \<times> string
     \<Rightarrow> contradiction list" where
  "pair_step uuid themes cs ab =
     (case ab of (a, b) \<Rightarrow>
        (case themes a of
           None \<Rightarrow> cs
         | Some ta \<Rightarrow>
             (case themes b of
                None \<Rightarrow> cs
              | Some tb \<Rightarrow>
                  if length ta \<noteq> 0 \<and> length tb \<noteq> 0
                  then let e1 = last ta; e2 = last tb
                       in push_contradiction uuid cs ''thematic'' e1 e2 (thematic_description e1 e2)
                  else cs)))"

definition findContradictions ::
  "(nat \<Rightarrow> string) \<Rightarrow> store \<Rightarrow> string \<Rightarrow> js_error + contradiction list" where
  "findContradictions uuid st projectId =
     (let feedback = getFeedback st projectId
      in case group_byItem feedback of
           Inl err \<Rightarrow> Inl err
         | Inr byItem \<Rightarrow>
             let contradictions =
                   foldl (\<lambda>cs entries. direct_outer uuid entries cs) [] (object_values byItem);
                 themes = build_themes feedback
             in Inr (foldl (pair_step uuid themes) contradictions pairs))"

section \<open>Full context\<close>

record summary =
  totalFeedback :: nat
  approvedCount :: nat
  rejectedCount :: nat
  revisionCount :: nat
  activeContradictions :: nat
  learnedRules :: nat

record full_context =
  project_ctx :: "project option"
  strategies_ctx :: "item list"
  concepts_ctx :: "item list"
  scripts_ctx :: "item list"
  feedback_ctx :: "feedback_entry list"
  patterns_ctx :: patterns
  contradictions_ctx :: "contradiction list"
  summary_ctx :: summary

definition listProjects :: "store \<Rightarrow> project list" where
  "listProjects st = (case projects_doc st of None \<Rightarrow> [] | Some ps \<Rightarrow> ps)"

definition getProject :: "store \<Rightarrow> string \<Rightarrow> project option" where
  "getProject st projectId = find (\<lambda>p. id_proj p = projectId) (listProjects st)"

definition getItems :: "store \<Rightarrow> string \<Rightarrow> pipeline_stage \<Rightarrow> item list" where
  "getItems st projectId stg = (case items_doc st projectId stg of None \<Rightarrow> [] | Some items \<Rightarrow> items)"

text \<open>
  \<open>getFullContext\<close> has no \<open>try\<close>: an exception of \<open>findContradictions\<close> is its own.
\<close>

definition getFullContext ::
  "(nat \<Rightarrow> string) \<Rightarrow> store \<Rightarrow> string \<Rightarrow> js_error + full_context" where
  "getFullContext uuid st projectId =
     (let feedback = getFeedback st projectId;
          patterns0 = getPatterns st projectId
      in case findContradictions uuid st projectId of
           Inl err \<Rightarrow> Inl err
         | Inr contradictions \<Rightarrow>
             Inr \<lparr>project_ctx = getProject st projectId,
                  strategies_ctx = getItems st projectId Strategies,
                  concepts_ctx = getItems st projectId Concepts,
                  scripts_ctx = getItems st projectId Scripts,
                  feedback_ctx = feedback,
                  patterns_ctx = patterns0,
                  contradictions_ctx = contradictions,
                  summary_ctx =
                    \<lparr>totalFeedback = length feedback,
                     approvedCount = length (filter (\<lambda>f. action f = ''approved'') feedback),
                     rejectedCount = length (filter (\<lambda>f. action f = ''rejected'') feedback),
                     revisionCount = length (filter (\<lambda>f. action f = ''revision'') feedback),
                     activeContradictions = length contradictions,
                     learnedRules = length (rules patterns0)\<rparr>\<rparr>)"

section \<open>Pipeline items and batch script generation\<close>

text \<open>\<open>Array.prototype.findIndex\<close>, with \<open>None\<close> for \<open>-1\<close>.\<close>

fun findIndex :: "('a \<Rightarrow> bool) \<Rightarrow> 'a list \<Rightarrow> nat option" where
  "findIndex P [] = None"
| "findIndex P (x # xs) =
     (if P x then Some 0 else (case findIndex P xs of None \<Rightarrow> None | Some i \<Rightarrow> Some (Suc i)))"

text \<open>\<open>now\<close> is what \<open>Date.now()\<close> returns when the project's stamp is refreshed.\<close>

definition setItems :: "store \<Rightarrow> string \<Rightarrow> pipeline_stage \<Rightarrow> item list \<Rightarrow> nat \<Rightarrow> store" where
  "setItems st projectId stg items now =
     (let st1 = st\<lparr>items_doc := (items_doc st)(projectId := (items_doc st projectId)(stg := Some items))\<rparr>;
          projects = listProjects st1
      in case findIndex (\<lambda>p. id_proj p = projectId) projects of
           None \<Rightarrow> st1
         | Some idx \<Rightarrow>
             st1\<lparr>projects_doc := Some (projects[idx := (projects ! idx)\<lparr>updatedAt_proj := now\<rparr>])\<rparr>)"

definition addItems ::
  "store \<Rightarrow> string \<Rightarrow> pipeline_stage \<Rightarrow> item list \<Rightarrow> nat \<Rightarrow> item list \<times> store" where
  "addItems st projectId stg newItems now =
     (let existing = getItems st projectId stg;
          existingIds = set (map id_item existing);
          toAdd = filter (\<lambda>i. id_item i \<notin> existingIds) newItems;
          updated = existing @ toAdd
      in (updated, setItems st projectId stg updated now))"

text \<open>
  The script item the batch route builds from a concept and the answer of
  \<open>generate\<close>; \<open>u\<close> is its \<open>uuid()\<close> and \<open>t\<close> its \<open>Date.now()\<close>.
\<close>

definition script_item :: "item \<Rightarrow> gen_result \<Rightarrow> string \<Rightarrow> nat \<Rightarrow> item" where
  "script_item concept result u t =
     \<lparr>id_item = u,
      title = ''Script: '' @ title concept,
      description = description concept,
      status = ''pending'',
      comments = [],
      parentId = Some (id_item concept),
      tier = tier concept,
      format = format concept,
      duration = duration concept,
      heroCopy = heroCopy concept,
      script = Some (case script_res result of None \<Rightarrow> WholeResult result | Some s \<Rightarrow> Shots s),
      hooks = (case hooks_res result of None \<Rightarrow> hooks concept | Some h \<Rightarrow> Some h),
      caption = (case caption_res result of None \<Rightarrow> caption concept | Some c \<Rightarrow> Some c),
      productionNotes = Some (case production_notes_res result of None \<Rightarrow> [] | Some n \<Rightarrow> n),
      createdAt = Some t\<rparr>"

text \<open>
  The loop \<open>for (const concept of toGenerate)\<close>, counting its rounds from 0.
  \<open>generate k concept\<close> is the answer of \<open>generate\<close> in round \<open>k\<close>, \<open>None\<close> when
  the call throws; the exception leaves the loop and reaches the route's \<open>catch\<close>.
  \<open>uuid k\<close> and \<open>now k\<close> are what \<open>uuid()\<close> and \<open>Date.now()\<close> return for the
  script of round \<open>k\<close>.
\<close>

fun generate_scripts ::
  "(nat \<Rightarrow> item \<Rightarrow> gen_result option) \<Rightarrow> (nat \<Rightarrow> string) \<Rightarrow> (nat \<Rightarrow> nat) \<Rightarrow> nat \<Rightarrow> item list
     \<Rightarrow> item list \<Rightarrow> item list option" where
  "generate_scripts generate uuid now k [] generated = Some generated"
| "generate_scripts generate uuid now k (concept # rest) generated =
     (case generate k concept of
        None \<Rightarrow> None
      | Some result \<Rightarrow>
          generate_scripts generate uuid now (Suc k) rest
            (generated @ [script_item concept result (uuid k) (now k)]))"

text \<open>
  The answers of \<open>POST /scripts/batch\<close>: status 400, the answer with
  \<open>generated: 0\<close> and the stored scripts, the answer with the updated scripts and
  the number generated, and status 500. After the loop, \<open>now (length toGenerate)\<close>
  is the \<open>Date.now()\<close> of \<open>setItems\<close>.
\<close>

datatype batch_response =
  BadRequest
  | AlreadyHave "item list"
  | Generated "item list" nat
  | ServerError

definition scripts_batch ::
  "(nat \<Rightarrow> item \<Rightarrow> gen_result option) \<Rightarrow> (nat \<Rightarrow> string) \<Rightarrow> (nat \<Rightarrow> nat) \<Rightarrow> store \<Rightarrow> string option
     \<Rightarrow> batch_response \<times> store" where
  "scripts_batch generate uuid now st body_projectId =
     (case body_projectId of
        None \<Rightarrow> (BadRequest, st)
      | Some projectId \<Rightarrow>
          if projectId = [] then (BadRequest, st)
          else
            let conceptItems = getItems st projectId Concepts;
                approvedItems = filter (\<lambda>c. status c = ''approved'') conceptItems;
                existingScripts = getItems st projectId Scripts;
                existingParentIds = set (map parentId existingScripts);
                toGenerate = filter (\<lambda>c. Some (id_item c) \<notin> existingParentIds) approvedItems
            in if length toGenerate = 0 then (AlreadyHave existingScripts, st)
               else
                 (case generate_scripts generate uuid now 0 toGenerate [] of
                    None \<Rightarrow> (ServerError, st)
                  | Some generated \<Rightarrow>
                      (case addItems st projectId Scripts generated (now (length toGenerate)) of
                         (updated, st1) \<Rightarrow> (Generated updated (length generated), st1))))"

text \<open>A run of appends to one project's ledger, each with its \<open>uuid()\<close> and \<open>Date.now()\<close>.\<close>

fun appendAll ::
  "store \<Rightarrow> string \<Rightarrow> (feedback_input \<times> string \<times> nat) list \<Rightarrow> feedback_entry list \<times> store" where
  "appendAll st projectId [] = ([], st)"
| "appendAll st projectId (r # rest) =
     (case addFeedback st projectId (fst r) (fst (snd r)) (snd (snd r)) of
        (e, st1) \<Rightarrow>
          (case appendAll st1 projectId rest of (es, st2) \<Rightarrow> (e # es, st2)))"

section \<open>Notions of the specification\<close>

text \<open>
  Every pair of positions \<open>i < j\<close> of a list, by index, in the order the two
  nested loops visit them; and the pairs among them that are an approval and a
  rejection in either order.
\<close>

definition all_pairs :: "'a list \<Rightarrow> ('a \<times> 'a) list" where
  "all_pairs es =
     concat (map (\<lambda>i. map (\<lambda>j. (es ! i, es ! j)) [Suc i ..< length es]) [0 ..< length es])"

definition direct_pairs :: "feedback_entry list \<Rightarrow> (feedback_entry \<times> feedback_entry) list" where
  "direct_pairs es = filter (\<lambda>ab. is_direct (fst ab) (snd ab)) (all_pairs es)"

definition on_item :: "string \<Rightarrow> feedback_entry list \<Rightarrow> feedback_entry list" where
  "on_item x feedback = filter (\<lambda>e. itemId e = x) feedback"

text \<open>
  A ledger is free of inherited keys when no item id of its entries is the name of
  a property of \<open>Object.prototype\<close>. The items of a ledger in the order of their
  first entry, and in the order the detector visits them: the item ids that are
  array indices by ascending number, then the others by first entry.
\<close>

definition no_inherited :: "feedback_entry list \<Rightarrow> bool" where
  "no_inherited feedback = list_all (\<lambda>e. itemId e \<notin> set inherited_keys) feedback"

definition first_seen :: "'a list \<Rightarrow> 'a list" where
  "first_seen xs = rev (remdups (rev xs))"

definition item_order :: "feedback_entry list \<Rightarrow> string list" where
  "item_order feedback =
     sort_key index_value (filter is_array_index (first_seen (map itemId feedback))) @
     filter (\<lambda>k. \<not> is_array_index k) (first_seen (map itemId feedback))"

text \<open>
  An entry is tagged under a theme when it has a non-empty comment that, lower-cased,
  contains one of the theme's trigger keywords. An axis has evidence on both sides
  when both of its themes have a tagged entry.
\<close>

definition keywords_of :: "string \<Rightarrow> string list" where
  "keywords_of theme = (case map_of themeKeywords theme of None \<Rightarrow> [] | Some kws \<Rightarrow> kws)"

definition is_tagged :: "string \<Rightarrow> feedback_entry \<Rightarrow> bool" where
  "is_tagged theme e =
     (case comment e of
        None \<Rightarrow> False
      | Some c \<Rightarrow> c \<noteq> [] \<and> list_ex (\<lambda>kw. str_includes (toLowerCase c) kw) (keywords_of theme))"

definition tagged :: "feedback_entry list \<Rightarrow> string \<Rightarrow> feedback_entry list" where
  "tagged feedback theme = filter (is_tagged theme) feedback"

definition both_tagged :: "feedback_entry list \<Rightarrow> string \<times> string \<Rightarrow> bool" where
  "both_tagged feedback ab = (tagged feedback (fst ab) \<noteq> [] \<and> tagged feedback (snd ab) \<noteq> [])"

text \<open>
  A contradiction without the identifier \<open>uuid()\<close> gave it, and the two entries it
  references. The drafts are the contradictions a ledger calls for, identifiers
  left empty: the direct ones item by item, then one for each axis with evidence
  on both sides, built from the last tagged entry of each side. \<open>with_ids\<close> gives
  the drafts the identifiers of \<open>uuid()\<close>, in the order of the calls.
\<close>

definition strip_id :: "contradiction \<Rightarrow> contradiction" where
  "strip_id c = c\<lparr>id_con := []\<rparr>"

definition pair_of :: "contradiction \<Rightarrow> feedback_entry \<times> feedback_entry" where
  "pair_of c = (entry1 c, entry2 c)"

definition direct_draft :: "feedback_entry \<times> feedback_entry \<Rightarrow> contradiction" where
  "direct_draft ab =
     \<lparr>id_con = [], type_con = ''direct'', entry1 = fst ab, entry2 = snd ab,
      description_con = direct_description (fst ab) (snd ab)\<rparr>"

definition thematic_draft :: "feedback_entry \<Rightarrow> feedback_entry \<Rightarrow> contradiction" where
  "thematic_draft e1 e2 =
     \<lparr>id_con = [], type_con = ''thematic'', entry1 = e1, entry2 = e2,
      description_con = thematic_description e1 e2\<rparr>"

definition axis_drafts :: "feedback_entry list \<Rightarrow> string \<times> string \<Rightarrow> contradiction list" where
  "axis_drafts feedback ab =
     (if both_tagged feedback ab
      then [thematic_draft (last (tagged feedback (fst ab))) (last (tagged feedback (snd ab)))]
      else [])"

definition direct_drafts :: "feedback_entry list \<Rightarrow> contradiction list" where
  "direct_drafts feedback =
     concat (map (\<lambda>k. map direct_draft (direct_pairs (on_item k feedback))) (item_order feedback))"

definition thematic_drafts :: "feedback_entry list \<Rightarrow> contradiction list" where
  "thematic_drafts feedback = concat (map (axis_drafts feedback) pairs)"

definition drafts :: "feedback_entry list \<Rightarrow> contradiction list" where
  "drafts feedback = direct_drafts feedback @ thematic_drafts feedback"

definition with_ids :: "(nat \<Rightarrow> string) \<Rightarrow> contradiction list \<Rightarrow> contradiction list" where
  "with_ids uuid ds = map (\<lambda>kd. (snd kd)\<lparr>id_con := uuid (fst kd)\<rparr>) (zip [0 ..< length ds] ds)"

text \<open>Invariants of the loops, used in the proofs only.\<close>

definition ids_ok :: "(nat \<Rightarrow> string) \<Rightarrow> contradiction list \<Rightarrow> bool" where
  "ids_ok uuid cs = (map id_con cs = map uuid [0 ..< length cs])"

definition entries_of :: "(string \<rightharpoonup> feedback_entry list) \<Rightarrow> string \<Rightarrow> feedback_entry list" where
  "entries_of themes t = (case themes t of None \<Rightarrow> [] | Some es \<Rightarrow> es)"

definition no_empty :: "(string \<rightharpoonup> feedback_entry list) \<Rightarrow> bool" where
  "no_empty themes = (\<forall>t. themes t \<noteq> Some [])"

definition grp_inv :: "(string \<times> feedback_entry list) list \<Rightarrow> feedback_entry list \<Rightarrow> bool" where
  "grp_inv g feedback =
     (map fst g = first_seen (map itemId feedback) \<and>
      (\<forall>k. map_of g k = (if on_item k feedback = [] then None else Some (on_item k feedback))))"

text \<open>The number of ledger entries whose action is \<open>commented\<close>.\<close>

definition commentedCount :: "feedback_entry list \<Rightarrow> nat" where
  "commentedCount feedback = length (filter (\<lambda>f. action f = ''commented'') feedback)"

text \<open>
  A comment is non-empty after trimming when one of its characters is not white
  space; a rule-bearing entry is a revision with such a comment.
\<close>

definition nonblank :: "string \<Rightarrow> bool" where
  "nonblank c = list_ex (\<lambda>ch. \<not> is_space ch) c"

definition rule_bearing :: "feedback_entry \<Rightarrow> bool" where
  "rule_bearing f =
     (action f = ''revision'' \<and> (case comment f of None \<Rightarrow> False | Some c \<Rightarrow> nonblank c))"

text \<open>
  The concepts a batch run selects: those with status approved whose id is not the
  \<open>parentId\<close> of a stored script.
\<close>

definition eligible :: "store \<Rightarrow> string \<Rightarrow> item list" where
  "eligible st projectId =
     filter (\<lambda>c. status c = ''approved'' \<and>
                Some (id_item c) \<notin> set (map parentId (getItems st projectId Scripts)))
       (getItems st projectId Concepts)"

text \<open>
  Position \<open>i\<close> of the project index is the first that holds a project with the
  given id.
\<close>

definition is_first :: "string \<Rightarrow> project list \<Rightarrow> nat \<Rightarrow> bool" where
  "is_first projectId ps i =
     (i < length ps \<and> id_proj (ps ! i) = projectId \<and>
      list_all (\<lambda>p. id_proj p \<noteq> projectId) (take i ps))"

section \<open>Example data\<close>

text \<open>
  An entry on a given item at time \<open>t\<close>, an entry on item \<open>X\<close>, a store whose
  project \<open>P\<close> has a given ledger and nothing else, and two runs of \<open>uuid()\<close>
  that differ.
\<close>

definition entry_on :: "string \<Rightarrow> nat \<Rightarrow> string \<Rightarrow> string option \<Rightarrow> feedback_entry" where
  "entry_on x t act c =
     \<lparr>id_fb = ''e'', itemId = x, itemTitle = ''Hook A'', stage = ''concepts'',
      action = act, comment = c, timestamp = t\<rparr>"

definition entry_at :: "nat \<Rightarrow> string \<Rightarrow> string option \<Rightarrow> feedback_entry" where
  "entry_at t act c =
     \<lparr>id_fb = ''e'', itemId = ''X'', itemTitle = ''Hook A'', stage = ''concepts'',
      action = act, comment = c, timestamp = t\<rparr>"

definition ledger_store :: "feedback_entry list \<Rightarrow> store" where
  "ledger_store feedback =
     \<lparr>projects_doc = None, items_doc = (\<lambda>p s. None),
      feedback_doc = (\<lambda>p. if p = ''P'' then Some feedback else None),
      patterns_doc = (\<lambda>p. None)\<rparr>"

definition uuid_a :: "nat \<Rightarrow> string" where
  "uuid_a k = ''a'' @ replicate k CHR ''x''"

definition uuid_b :: "nat \<Rightarrow> string" where
  "uuid_b k = ''b'' @ replicate k CHR ''x''"




definition ledger_order :: "feedback_entry list" where
  "ledger_order =
     [entry_on ''b'' 1 ''approved'' None, entry_on ''2'' 2 ''approved'' None,
      entry_on ''b'' 3 ''rejected'' None, entry_on ''1'' 4 ''approved'' None,
      entry_on ''2'' 5 ''rejected'' None, entry_on ''1'' 6 ''rejected'' None]"

definition ledger_direct :: "feedback_entry list" where
  "ledger_direct =
     [entry_at 1 ''approved'' None, entry_at 2 ''commented'' None, entry_at 3 ''rejected'' None]"

definition ledger_one_side :: "feedback_entry list" where
  "ledger_one_side =
     [entry_at 1 ''commented'' (Some ''This is too long''),
      entry_at 2 ''revision'' (Some ''Still TOO LONG for a reel'')]"

definition ledger_both_sides :: "feedback_entry list" where
  "ledger_both_sides = ledger_one_side @ [entry_at 3 ''commented'' (Some ''Expand the ending'')]"

definition ledger_recent :: "feedback_entry list" where
  "ledger_recent =
     [entry_at 1 ''commented'' (Some ''too long''),
      entry_at 2 ''commented'' (Some ''make it longer''),
      entry_at 3 ''commented'' (Some ''trim the intro'')]"

definition ledger_self :: "feedback_entry list" where
  "ledger_self = [entry_at 1 ''commented'' (Some ''Too dark, go darker'')]"

definition ledger_flip :: "feedback_entry list" where
  "ledger_flip = [entry_at 1 ''approved'' None, entry_at 2 ''rejected'' None]"

definition ledger_counts :: "feedback_entry list" where
  "ledger_counts =
     [entry_at 1 ''commented'' (Some ''nice''), entry_at 2 ''commented'' (Some ''ok''),
      entry_at 3 ''approved'' None]"

text \<open>
  The data directory with no file in it, and requests to \<open>addFeedback\<close>: four
  without id and timestamp, where \<open>uuid()\<close> returns \<open>uuid_a t\<close> and \<open>Date.now()\<close>
  returns \<open>t\<close>; the four followed by a revision whose comment is a no-break
  space, a space and a tab; and a request that brings its own id and timestamp.
\<close>

definition empty_store :: store where
  "empty_store =
     \<lparr>projects_doc = None, items_doc = (\<lambda>p s. None), feedback_doc = (\<lambda>p. None),
      patterns_doc = (\<lambda>p. None)\<rparr>"

definition request_at :: "nat \<Rightarrow> string \<Rightarrow> string option \<Rightarrow> feedback_input \<times> string \<times> nat" where
  "request_at t act c =
     (\<lparr>id_in = None, itemId_in = ''X'', itemTitle_in = ''Hook A'', stage_in = ''concepts'',
       action_in = act, comment_in = c, timestamp_in = None\<rparr>, uuid_a t, t)"

definition requests_ex :: "(feedback_input \<times> string \<times> nat) list" where
  "requests_ex =
     [request_at 1 ''approved'' (Some ''love it''),
      request_at 2 ''revision'' (Some ''  ''),
      request_at 3 ''revision'' (Some ''Shorter hook''),
      request_at 4 ''rejected'' None]"

definition requests_nbsp :: "(feedback_input \<times> string \<times> nat) list" where
  "requests_nbsp =
     requests_ex @ [request_at 5 ''revision'' (Some [CHR 0xA0, CHR 0x20, CHR 0x09])]"

definition request_given :: "feedback_input \<times> string \<times> nat" where
  "request_given =
     (\<lparr>id_in = Some ''mine'', itemId_in = ''X'', itemTitle_in = ''Hook A'', stage_in = ''concepts'',
       action_in = ''commented'', comment_in = Some ''nice'', timestamp_in = Some 7\<rparr>, ''unused'', 9)"

text \<open>
  A bare item, a store whose project \<open>P\<close> has the concepts A (approved),
  B (approved) and C (pending) and no scripts, the same store with a project
  \<open>Q\<close> before \<open>P\<close> in the index, a \<open>generate\<close> that always answers, and a clock.
\<close>

definition item_at :: "string \<Rightarrow> string \<Rightarrow> item" where
  "item_at i s =
     \<lparr>id_item = i, title = ''Title '' @ i, description = ''About '' @ i, status = s,
      comments = [], parentId = None, tier = None, format = None, duration = None,
      heroCopy = None, script = None, hooks = None, caption = None, productionNotes = None,
      createdAt = None\<rparr>"

definition concepts_store :: store where
  "concepts_store =
     \<lparr>projects_doc =
        Some [\<lparr>id_proj = ''P'', name_proj = ''Demo'', brandData = [], createdAt_proj = 1,
               updatedAt_proj = 1\<rparr>],
      items_doc = (\<lambda>p s. if p = ''P'' \<and> s = Concepts
         then Some [item_at ''A'' ''approved'', item_at ''B'' ''approved'', item_at ''C'' ''pending'']
         else None),
      feedback_doc = (\<lambda>p. None), patterns_doc = (\<lambda>p. None)\<rparr>"

definition shared_store :: store where
  "shared_store =
     concepts_store
       \<lparr>projects_doc :=
          Some [\<lparr>id_proj = ''Q'', name_proj = ''Other'', brandData = [], createdAt_proj = 1,
                 updatedAt_proj = 1\<rparr>,
                \<lparr>id_proj = ''P'', name_proj = ''Demo'', brandData = [], createdAt_proj = 1,
                 updatedAt_proj = 1\<rparr>]\<rparr>"

definition generate_ok :: "nat \<Rightarrow> item \<Rightarrow> gen_result option" where
  "generate_ok k c =
     Some \<lparr>script_res = Some ''shots'', hooks_res = None, caption_res = None,
           production_notes_res = None\<rparr>"

definition clock :: "nat \<Rightarrow> nat" where
  "clock k = 100 + k"

section \<open>Properties of the string functions\<close>

text \<open>\<open>str_includes s kw\<close> holds exactly when \<open>kw\<close> is a contiguous part of \<open>s\<close>.\<close>

lemma startsWith_prefix: "startsWith s kw = prefix kw s"
  by (induction s kw rule: startsWith.induct) auto

lemma str_includes_sublist: "str_includes s kw = sublist kw s"
proof (induction s)
  case Nil
  then show ?case by simp
next
  case (Cons c cs)
  then show ?case
    by (cases kw) (simp_all add: startsWith_prefix sublist_Cons_right)
qed

section \<open>Properties of the loops\<close>

lemma all_pairs_Nil: "all_pairs [] = []"
  by (simp add: all_pairs_def)

lemma all_pairs_Cons: "all_pairs (a # es) = map (Pair a) es @ all_pairs es"
proof -
  define F where "F = (\<lambda>i. map (\<lambda>j. ((a # es) ! i, (a # es) ! j)) [Suc i ..< length (a # es)])"
  define G where "G = (\<lambda>i. map (\<lambda>j. (es ! i, es ! j)) [Suc i ..< length es])"
  have up: "[0 ..< length (a # es)] = 0 # map Suc [0 ..< length es]"
    by (simp add: upt_conv_Cons map_Suc_upt del: upt_Suc)
  have shift: "[Suc (Suc i) ..< length (a # es)] = map Suc [Suc i ..< length es]" for i
    by (simp add: map_Suc_upt del: upt_Suc)
  have row0: "F 0 = map (Pair a) es"
  proof -
    have "[Suc 0 ..< length (a # es)] = map Suc [0 ..< length es]"
      by (simp add: map_Suc_upt del: upt_Suc)
    then have "F 0 = map (\<lambda>j. (a, es ! j)) [0 ..< length es]"
      unfolding F_def by (simp add: comp_def del: upt_Suc)
    also have "\<dots> = map (Pair a) (map (\<lambda>j. es ! j) [0 ..< length es])"
      by (simp add: comp_def)
    also have "\<dots> = map (Pair a) es"
      by (simp add: map_nth)
    finally show ?thesis .
  qed
  have rows: "F (Suc i) = G i" for i
    unfolding F_def G_def shift by (simp add: comp_def del: upt_Suc)
  have "all_pairs (a # es) = concat (map F (0 # map Suc [0 ..< length es]))"
    unfolding all_pairs_def F_def up ..
  also have "\<dots> = F 0 @ concat (map (\<lambda>i. F (Suc i)) [0 ..< length es])"
    by (simp add: comp_def del: upt_Suc)
  also have "\<dots> = map (Pair a) es @ concat (map G [0 ..< length es])"
    by (simp only: row0 rows)
  also have "concat (map G [0 ..< length es]) = all_pairs es"
    unfolding all_pairs_def G_def ..
  finally show ?thesis .
qed

lemma fst_all_pairs: "ab \<in> set (all_pairs es) \<Longrightarrow> fst ab \<in> set es \<and> snd ab \<in> set es"
  by (induction es) (auto simp: all_pairs_Nil all_pairs_Cons)

lemma ids_ok_Nil: "ids_ok uuid []"
  by (simp add: ids_ok_def)

lemma ids_ok_push:
  "ids_ok uuid cs \<Longrightarrow> ids_ok uuid (push_contradiction uuid cs ty a b d)"
  by (simp add: ids_ok_def push_contradiction_def)

lemma strip_push:
  "map strip_id (push_contradiction uuid cs ty a b d) =
     map strip_id cs @ [\<lparr>id_con = [], type_con = ty, entry1 = a, entry2 = b, description_con = d\<rparr>]"
  by (simp add: push_contradiction_def strip_id_def)

lemma ids_ok_direct_inner: "ids_ok uuid cs \<Longrightarrow> ids_ok uuid (direct_inner uuid a bs cs)"
  by (induction bs arbitrary: cs) (simp_all add: ids_ok_push)

lemma ids_ok_direct_outer: "ids_ok uuid cs \<Longrightarrow> ids_ok uuid (direct_outer uuid es cs)"
  by (induction es arbitrary: cs) (simp_all add: ids_ok_direct_inner)

lemma strip_direct_inner:
  "map strip_id (direct_inner uuid a bs cs) =
     map strip_id cs @
     map direct_draft (filter (\<lambda>ab. is_direct (fst ab) (snd ab)) (map (Pair a) bs))"
  by (induction bs arbitrary: cs) (simp_all add: strip_push direct_draft_def)

lemma strip_direct_outer:
  "map strip_id (direct_outer uuid es cs) = map strip_id cs @ map direct_draft (direct_pairs es)"
  by (induction es arbitrary: cs)
     (simp_all add: strip_direct_inner direct_pairs_def all_pairs_Nil all_pairs_Cons)

lemma ids_ok_groups:
  "ids_ok uuid cs \<Longrightarrow> ids_ok uuid (foldl (\<lambda>cs entries. direct_outer uuid entries cs) cs gs)"
  by (induction gs arbitrary: cs) (simp_all add: ids_ok_direct_outer)

lemma strip_groups:
  "map strip_id (foldl (\<lambda>cs entries. direct_outer uuid entries cs) cs gs) =
     map strip_id cs @ concat (map (\<lambda>es. map direct_draft (direct_pairs es)) gs)"
  by (induction gs arbitrary: cs) (simp_all add: strip_direct_outer)

lemma first_seen_snoc:
  "first_seen (xs @ [x]) = (if x \<in> set xs then first_seen xs else first_seen xs @ [x])"
  by (simp add: first_seen_def)

lemma set_first_seen: "set (first_seen xs) = set xs"
  by (simp add: first_seen_def)

lemma distinct_first_seen: "distinct (first_seen xs)"
  by (simp add: first_seen_def)

lemma grp_inv_Nil: "grp_inv [] []"
  by (simp add: grp_inv_def on_item_def first_seen_def)

lemma grp_inv_distinct: "grp_inv g feedback \<Longrightarrow> distinct (map fst g)"
  by (simp add: grp_inv_def distinct_first_seen)

lemma grp_inv_keys: "grp_inv g feedback \<Longrightarrow> fst ` set g = itemId ` set feedback"
proof -
  assume "grp_inv g feedback"
  then have "set (map fst g) = set (first_seen (map itemId feedback))"
    by (simp add: grp_inv_def)
  then show ?thesis by (simp add: set_first_seen)
qed

lemma on_item_empty: "(on_item k feedback = []) = (k \<notin> itemId ` set feedback)"
  by (auto simp: on_item_def filter_empty_conv)

lemma byItem_add_ok:
  assumes inv: "grp_inv g feedback"
    and ok: "itemId e \<notin> set inherited_keys"
  shows "\<exists>g1. byItem_add g e = Inr g1 \<and> grp_inv g1 (feedback @ [e])"
proof -
  let ?k = "itemId e"
  from inv have keys: "map fst g = first_seen (map itemId feedback)"
    and m: "\<And>k. map_of g k = (if on_item k feedback = [] then None else Some (on_item k feedback))"
    by (simp_all add: grp_inv_def)
  have other: "on_item k (feedback @ [e]) = on_item k feedback" if "k \<noteq> ?k" for k
    using that by (auto simp: on_item_def)
  have here: "on_item ?k (feedback @ [e]) = on_item ?k feedback @ [e]"
    by (simp add: on_item_def)
  show ?thesis
  proof (cases "map_of g ?k")
    case None
    with m [of ?k] have empty: "on_item ?k feedback = []"
      by (simp split: if_splits)
    then have fresh: "?k \<notin> set (map itemId feedback)"
      by (simp add: on_item_empty)
    let ?g1 = "g @ [(?k, [e])]"
    have add: "byItem_add g e = Inr ?g1"
      using None ok by (simp add: byItem_add_def)
    have k1: "map fst ?g1 = first_seen (map itemId (feedback @ [e]))"
      using fresh keys by (simp add: first_seen_snoc)
    have m1: "map_of ?g1 k =
        (if on_item k (feedback @ [e]) = [] then None else Some (on_item k (feedback @ [e])))" for k
    proof (cases "k = ?k")
      case True
      then show ?thesis
        using None here empty by (simp add: map_add_def)
    next
      case False
      then show ?thesis
        using other [OF False] m [of k] by (simp add: map_add_def)
    qed
    from add k1 m1 show ?thesis
      unfolding grp_inv_def by blast
  next
    case (Some es)
    with m [of ?k] have es: "es = on_item ?k feedback" and ne: "on_item ?k feedback \<noteq> []"
      by (simp_all split: if_splits)
    from ne have seen: "?k \<in> set (map itemId feedback)"
      by (simp add: on_item_empty)
    then have kin: "?k \<in> fst ` set g"
      using keys by (metis set_first_seen set_map)
    let ?g1 = "AList.update ?k (es @ [e]) g"
    have add: "byItem_add g e = Inr ?g1"
      using Some by (simp add: byItem_add_def)
    have k1: "map fst ?g1 = first_seen (map itemId (feedback @ [e]))"
      using seen keys kin by (simp add: first_seen_snoc update_keys set_first_seen)
    have m1: "map_of ?g1 k =
        (if on_item k (feedback @ [e]) = [] then None else Some (on_item k (feedback @ [e])))" for k
    proof (cases "k = ?k")
      case True
      then show ?thesis
        using here es by (simp add: update_conv')
    next
      case False
      then show ?thesis
        using other [OF False] m [of k] by (simp add: update_conv')
    qed
    from add k1 m1 show ?thesis
      unfolding grp_inv_def by blast
  qed
qed

lemma byItem_add_throws:
  assumes inv: "grp_inv g feedback"
    and clean: "no_inherited feedback"
    and bad: "itemId e \<in> set inherited_keys"
  shows "byItem_add g e = Inl TypeError"
proof -
  from clean bad have "itemId e \<notin> itemId ` set feedback"
    by (auto simp: no_inherited_def list_all_iff)
  then have "on_item (itemId e) feedback = []"
    by (simp add: on_item_empty)
  with inv have "map_of g (itemId e) = None"
    by (simp add: grp_inv_def)
  with bad show ?thesis
    by (simp add: byItem_add_def)
qed

lemma no_inherited_append:
  "no_inherited (xs @ ys) = (no_inherited xs \<and> no_inherited ys)"
  by (simp add: no_inherited_def)

lemma no_inherited_Cons:
  "no_inherited (e # es) = (itemId e \<notin> set inherited_keys \<and> no_inherited es)"
  by (simp add: no_inherited_def)

lemma group_from_ok:
  "grp_inv g feedback \<Longrightarrow> no_inherited es \<Longrightarrow>
   \<exists>g1. group_from g es = Inr g1 \<and> grp_inv g1 (feedback @ es)"
proof (induction es arbitrary: g feedback)
  case Nil
  then show ?case by simp
next
  case (Cons e es)
  from Cons.prems(2) have e: "itemId e \<notin> set inherited_keys" and es: "no_inherited es"
    by (simp_all add: no_inherited_Cons)
  from byItem_add_ok [OF Cons.prems(1) e] obtain g1
    where add: "byItem_add g e = Inr g1" and inv1: "grp_inv g1 (feedback @ [e])" by blast
  from Cons.IH [OF inv1 es] obtain g2
    where "group_from g1 es = Inr g2" and "grp_inv g2 ((feedback @ [e]) @ es)" by blast
  with add show ?case by simp
qed

lemma group_from_throws:
  "grp_inv g feedback \<Longrightarrow> no_inherited feedback \<Longrightarrow> \<not> no_inherited es \<Longrightarrow>
   group_from g es = Inl TypeError"
proof (induction es arbitrary: g feedback)
  case Nil
  then show ?case by (simp add: no_inherited_def)
next
  case (Cons e es)
  show ?case
  proof (cases "itemId e \<in> set inherited_keys")
    case True
    from byItem_add_throws [OF Cons.prems(1) Cons.prems(2) True] show ?thesis by simp
  next
    case False
    from byItem_add_ok [OF Cons.prems(1) False] obtain g1
      where add: "byItem_add g e = Inr g1" and inv1: "grp_inv g1 (feedback @ [e])" by blast
    from Cons.prems(2) False have clean1: "no_inherited (feedback @ [e])"
      by (simp add: no_inherited_append no_inherited_Cons) (simp add: no_inherited_def)
    from Cons.prems(3) False have "\<not> no_inherited es"
      by (simp add: no_inherited_Cons)
    from Cons.IH [OF inv1 clean1 this] add show ?thesis by simp
  qed
qed

lemma group_byItem_ok:
  "no_inherited feedback \<Longrightarrow> \<exists>g. group_byItem feedback = Inr g \<and> grp_inv g feedback"
  using group_from_ok [OF grp_inv_Nil, of feedback] by (simp add: group_byItem_def)

lemma group_byItem_throws:
  "\<not> no_inherited feedback \<Longrightarrow> group_byItem feedback = Inl TypeError"
  using group_from_throws [OF grp_inv_Nil, of feedback]
  by (simp add: group_byItem_def) (simp add: no_inherited_def)

lemma insort_key_map:
  "insort_key f (h x) (map h xs) = map h (insort_key (\<lambda>y. f (h y)) x xs)"
  by (induction xs) simp_all

lemma sort_key_map: "sort_key f (map h xs) = map h (sort_key (\<lambda>y. f (h y)) xs)"
  by (induction xs) (simp_all add: insort_key_map)

lemma object_values_map:
  "object_values (map (\<lambda>k. (k, h k)) ks) =
     map h (sort_key index_value (filter is_array_index ks) @
            filter (\<lambda>k. \<not> is_array_index k) ks)"
  by (simp add: object_values_def filter_map comp_def sort_key_map)

lemma grp_inv_graph:
  assumes "grp_inv g feedback"
  shows "g = map (\<lambda>k. (k, on_item k feedback)) (first_seen (map itemId feedback))"
proof -
  from assms have keys: "map fst g = first_seen (map itemId feedback)"
    and m: "\<And>k. map_of g k = (if on_item k feedback = [] then None else Some (on_item k feedback))"
    by (simp_all add: grp_inv_def)
  have d: "distinct (map fst g)"
    using assms by (rule grp_inv_distinct)
  have "p = (fst p, on_item (fst p) feedback)" if "p \<in> set g" for p
  proof -
    from that d have "map_of g (fst p) = Some (snd p)" by simp
    with m [of "fst p"] have "snd p = on_item (fst p) feedback"
      by (simp split: if_splits)
    then show ?thesis by (simp add: prod_eq_iff)
  qed
  then have "map (\<lambda>p. (fst p, on_item (fst p) feedback)) g = g"
    by (simp add: map_idI)
  then have "g = map (\<lambda>k. (k, on_item k feedback)) (map fst g)"
    by (simp add: comp_def)
  then show ?thesis
    by (simp only: keys)
qed

lemma object_values_grouped:
  "grp_inv g feedback \<Longrightarrow> object_values g = map (\<lambda>k. on_item k feedback) (item_order feedback)"
  by (subst grp_inv_graph, assumption) (simp only: object_values_map item_order_def)

lemma set_item_order: "set (item_order feedback) = itemId ` set feedback"
  by (auto simp: item_order_def set_first_seen)

lemma distinct_item_order: "distinct (item_order feedback)"
  by (auto simp: item_order_def distinct_first_seen)

lemma filter_concat_keys:
  assumes "distinct ks"
    and "\<And>k ab. ab \<in> set (f k) \<Longrightarrow> key ab = k"
  shows "filter (\<lambda>ab. key ab = x) (concat (map f ks)) = (if x \<in> set ks then f x else [])"
  using assms(1)
proof (induction ks)
  case Nil
  then show ?case by simp
next
  case (Cons k ks)
  have here: "filter (\<lambda>ab. key ab = x) (f k) = (if k = x then f k else [])"
    using assms(2) [of _ k] by (auto simp: filter_id_conv filter_empty_conv)
  from Cons show ?case
    by (auto simp: here)
qed

lemma direct_pairs_items:
  "filter (\<lambda>ab. itemId (fst ab) = x)
     (concat (map (\<lambda>k. direct_pairs (on_item k feedback)) (item_order feedback))) =
   direct_pairs (on_item x feedback)"
proof -
  have keys: "itemId (fst ab) = k" if "ab \<in> set (direct_pairs (on_item k feedback))" for k ab
  proof -
    from that have "fst ab \<in> set (on_item k feedback)"
      by (auto simp: direct_pairs_def dest: fst_all_pairs)
    then show ?thesis by (simp add: on_item_def)
  qed
  have "filter (\<lambda>ab. itemId (fst ab) = x)
     (concat (map (\<lambda>k. direct_pairs (on_item k feedback)) (item_order feedback))) =
     (if x \<in> set (item_order feedback) then direct_pairs (on_item x feedback) else [])"
    by (rule filter_concat_keys [OF distinct_item_order keys])
  also have "\<dots> = direct_pairs (on_item x feedback)"
    by (auto simp: set_item_order on_item_empty [symmetric] direct_pairs_def all_pairs_Nil)
  finally show ?thesis .
qed

lemma with_ids_strip: "ids_ok uuid cs \<Longrightarrow> with_ids uuid (map strip_id cs) = cs"
proof (rule nth_equalityI)
  show "length (with_ids uuid (map strip_id cs)) = length cs"
    by (simp add: with_ids_def)
next
  fix i
  assume ok: "ids_ok uuid cs" and "i < length (with_ids uuid (map strip_id cs))"
  then have i: "i < length cs" by (simp add: with_ids_def)
  from ok have "map id_con cs ! i = map uuid [0 ..< length cs] ! i"
    by (simp add: ids_ok_def)
  with i have "id_con (cs ! i) = uuid i" by simp
  with i show "with_ids uuid (map strip_id cs) ! i = cs ! i"
    by (simp add: with_ids_def strip_id_def)
qed

lemma length_with_ids: "length (with_ids uuid ds) = length ds"
  by (simp add: with_ids_def)

lemma id_con_with_ids: "map id_con (with_ids uuid ds) = map uuid [0 ..< length ds]"
  by (rule nth_equalityI) (simp_all add: with_ids_def)

lemma strip_with_ids: "map strip_id (with_ids uuid ds) = map strip_id ds"
  by (rule nth_equalityI) (simp_all add: with_ids_def strip_id_def)

lemma foldl_tag_theme:
  "distinct (map fst tks) \<Longrightarrow>
   foldl (tag_theme lower e) themes tks t =
     (case map_of tks t of
        None \<Rightarrow> themes t
      | Some kws \<Rightarrow>
          if list_ex (\<lambda>kw. str_includes lower kw) kws
          then Some (entries_of themes t @ [e])
          else themes t)"
proof (induction tks arbitrary: themes)
  case Nil
  then show ?case by simp
next
  case (Cons p tks)
  obtain k kws where p: "p = (k, kws)" by (cases p)
  from Cons.prems p have d: "distinct (map fst tks)" and knot: "k \<notin> fst ` set tks"
    by auto
  have none: "map_of tks k = None"
    using knot by (simp add: map_of_eq_None_iff)
  show ?case
  proof (cases "t = k")
    case True
    then show ?thesis
      using Cons.IH [OF d, of "tag_theme lower e themes p"] p none
      by (simp add: tag_theme_def entries_of_def)
  next
    case False
    then have tt: "tag_theme lower e themes p t = themes t"
      using p by (simp add: tag_theme_def)
    then have "entries_of (tag_theme lower e themes p) t = entries_of themes t"
      by (simp add: entries_of_def)
    with tt show ?thesis
      using Cons.IH [OF d, of "tag_theme lower e themes p"] p False
      by (simp split: option.splits)
  qed
qed

lemma distinct_themeKeywords: "distinct (map fst themeKeywords)"
  by (simp add: themeKeywords_def)

lemma tag_entry_lookup:
  "tag_entry themes e t =
     (if truthy_str (comment e) \<longrightarrow> \<not> is_tagged t e then themes t
      else Some (entries_of themes t @ [e]))"
proof (cases "comment e")
  case None
  then show ?thesis by (simp add: tag_entry_def)
next
  case (Some c)
  show ?thesis
  proof (cases "c = []")
    case True
    have "\<not> list_ex (\<lambda>kw. str_includes [] kw) kws" if "[] \<notin> set kws" for kws
      using that by (induction kws) auto
    moreover have "[] \<notin> set kws" if "map_of themeKeywords t = Some kws" for kws
      using that by (auto simp: themeKeywords_def split: if_splits)
    ultimately show ?thesis
      using Some True
      by (simp add: tag_entry_def foldl_tag_theme [OF distinct_themeKeywords] toLowerCase_def
          split: option.splits)
  next
    case False
    then show ?thesis
      using Some
      by (simp add: tag_entry_def foldl_tag_theme [OF distinct_themeKeywords] is_tagged_def
          keywords_of_def split: option.splits)
  qed
qed

lemma entries_of_tag_entry:
  "truthy_str (comment e) \<Longrightarrow>
   entries_of (tag_entry themes e) t = entries_of themes t @ (if is_tagged t e then [e] else [])"
  unfolding entries_of_def by (simp add: tag_entry_lookup entries_of_def)

lemma no_empty_tag_entry: "no_empty themes \<Longrightarrow> no_empty (tag_entry themes e)"
  by (simp add: no_empty_def tag_entry_lookup)

lemma foldl_tag_entry:
  "\<forall>e \<in> set es. truthy_str (comment e) \<Longrightarrow>
   entries_of (foldl tag_entry themes es) t = entries_of themes t @ tagged es t"
  by (induction es arbitrary: themes) (simp_all add: entries_of_tag_entry tagged_def)

lemma no_empty_foldl: "no_empty themes \<Longrightarrow> no_empty (foldl tag_entry themes es)"
  by (induction es arbitrary: themes) (simp_all add: no_empty_tag_entry)

lemma tagged_commented:
  "tagged (filter (\<lambda>e. truthy_str (comment e)) feedback) t = tagged feedback t"
proof -
  have "is_tagged t e \<Longrightarrow> truthy_str (comment e)" for e
    by (cases "comment e") (simp_all add: is_tagged_def)
  then have "filter (is_tagged t) (filter (\<lambda>e. truthy_str (comment e)) feedback) =
             filter (is_tagged t) feedback"
    by (induction feedback) auto
  then show ?thesis by (simp add: tagged_def)
qed

lemma entries_of_build_themes: "entries_of (build_themes feedback) t = tagged feedback t"
  using foldl_tag_entry [of "filter (\<lambda>e. truthy_str (comment e)) feedback" Map.empty t]
  by (simp add: build_themes_def tagged_commented) (simp add: entries_of_def)

lemma no_empty_build_themes: "no_empty (build_themes feedback)"
  unfolding build_themes_def by (rule no_empty_foldl) (simp add: no_empty_def)

lemma build_themes_lookup:
  "build_themes feedback t =
     (if tagged feedback t = [] then None else Some (tagged feedback t))"
proof (cases "build_themes feedback t")
  case None
  with entries_of_build_themes [of feedback t] show ?thesis
    by (simp add: entries_of_def)
next
  case (Some es)
  with no_empty_build_themes [of feedback] have "es \<noteq> []"
    by (auto simp: no_empty_def)
  with Some entries_of_build_themes [of feedback t] show ?thesis
    by (simp add: entries_of_def)
qed

lemma pair_step_build:
  "pair_step uuid (build_themes feedback) cs ab =
     (if both_tagged feedback ab
      then push_contradiction uuid cs ''thematic''
             (last (tagged feedback (fst ab))) (last (tagged feedback (snd ab)))
             (thematic_description (last (tagged feedback (fst ab)))
                (last (tagged feedback (snd ab))))
      else cs)"
  by (cases ab) (simp add: pair_step_def build_themes_lookup both_tagged_def Let_def)

lemma strip_pair_step:
  "map strip_id (pair_step uuid (build_themes feedback) cs ab) =
     map strip_id cs @ axis_drafts feedback ab"
  by (simp add: pair_step_build strip_push axis_drafts_def thematic_draft_def)

lemma ids_ok_pair_step:
  "ids_ok uuid cs \<Longrightarrow> ids_ok uuid (pair_step uuid (build_themes feedback) cs ab)"
  by (simp add: pair_step_build ids_ok_push)

lemma strip_pairs:
  "map strip_id (foldl (pair_step uuid (build_themes feedback)) cs ps) =
     map strip_id cs @ concat (map (axis_drafts feedback) ps)"
  by (induction ps arbitrary: cs) (simp_all add: strip_pair_step)

lemma ids_ok_pairs:
  "ids_ok uuid cs \<Longrightarrow> ids_ok uuid (foldl (pair_step uuid (build_themes feedback)) cs ps)"
  by (induction ps arbitrary: cs) (simp_all add: ids_ok_pair_step)

lemma findContradictions_returns:
  assumes "no_inherited (getFeedback st projectId)"
  shows "findContradictions uuid st projectId =
     Inr (with_ids uuid
            (direct_drafts (getFeedback st projectId) @ thematic_drafts (getFeedback st projectId)))"
proof -
  let ?l = "getFeedback st projectId"
  from group_byItem_ok [OF assms] obtain g
    where g: "group_byItem ?l = Inr g" and inv: "grp_inv g ?l" by blast
  let ?cs = "foldl (pair_step uuid (build_themes ?l))
      (foldl (\<lambda>cs entries. direct_outer uuid entries cs) [] (object_values g)) pairs"
  have run: "findContradictions uuid st projectId = Inr ?cs"
    by (simp add: findContradictions_def Let_def g)
  have ok: "ids_ok uuid ?cs"
    by (simp add: ids_ok_pairs ids_ok_groups ids_ok_Nil)
  have "map strip_id ?cs = direct_drafts ?l @ thematic_drafts ?l"
    by (simp add: strip_pairs strip_groups object_values_grouped [OF inv] direct_drafts_def
        thematic_drafts_def comp_def)
  with with_ids_strip [OF ok] have "?cs = with_ids uuid (direct_drafts ?l @ thematic_drafts ?l)"
    by simp
  with run show ?thesis by simp
qed

lemma findContradictions_throws:
  "\<not> no_inherited (getFeedback st projectId) \<Longrightarrow>
   findContradictions uuid st projectId = Inl TypeError"
  by (simp add: findContradictions_def Let_def group_byItem_throws)

lemma pair_of_strip [simp]: "pair_of (strip_id c) = pair_of c"
  by (simp add: pair_of_def strip_id_def)

lemma type_con_strip [simp]: "type_con (strip_id c) = type_con c"
  by (simp add: strip_id_def)

lemma entry1_strip [simp]: "entry1 (strip_id c) = entry1 c"
  by (simp add: strip_id_def)

lemma filter_strip:
  "(\<And>c. P (strip_id c) = P c) \<Longrightarrow> map strip_id (filter P cs) = filter P (map strip_id cs)"
  by (induction cs) simp_all

lemma type_direct_drafts: "c \<in> set (direct_drafts feedback) \<Longrightarrow> type_con c = ''direct''"
  by (auto simp: direct_drafts_def direct_draft_def)

lemma type_axis_drafts: "c \<in> set (axis_drafts feedback ab) \<Longrightarrow> type_con c = ''thematic''"
  by (auto simp: axis_drafts_def thematic_draft_def split: if_splits)

lemma type_thematic_drafts: "c \<in> set (thematic_drafts feedback) \<Longrightarrow> type_con c = ''thematic''"
  by (auto simp: thematic_drafts_def dest: type_axis_drafts)

lemma thematic_drafts_axes:
  "thematic_drafts feedback =
     axis_drafts feedback (''shorter'', ''longer'') @
     axis_drafts feedback (''lighter'', ''darker'') @
     axis_drafts feedback (''grounded'', ''absurd'')"
  by (simp add: thematic_drafts_def pairs_def)

lemma filter_thematic_drafts:
  "filter (\<lambda>c. type_con c = ''thematic'')
     (direct_drafts feedback @ thematic_drafts feedback) = thematic_drafts feedback"
proof -
  have "filter (\<lambda>c. type_con c = ''thematic'') (direct_drafts feedback) = []"
    by (auto simp: filter_empty_conv dest: type_direct_drafts)
  moreover have "filter (\<lambda>c. type_con c = ''thematic'') (thematic_drafts feedback) =
      thematic_drafts feedback"
    by (auto simp: filter_id_conv dest: type_thematic_drafts)
  ultimately show ?thesis by simp
qed

lemma pair_of_axis_drafts:
  "map pair_of (concat (map (axis_drafts feedback) ps)) =
     map (\<lambda>ab. (last (tagged feedback (fst ab)), last (tagged feedback (snd ab))))
       (filter (both_tagged feedback) ps)"
  by (induction ps) (simp_all add: axis_drafts_def thematic_draft_def pair_of_def)

lemma length_thematic_drafts:
  "length (concat (map (axis_drafts feedback) ps)) = length (filter (both_tagged feedback) ps)"
  by (induction ps) (simp_all add: axis_drafts_def)

lemma filter_direct_item_drafts:
  "map pair_of (filter (\<lambda>c. type_con c = ''direct'' \<and> itemId (entry1 c) = x)
     (direct_drafts feedback @ thematic_drafts feedback)) =
   direct_pairs (on_item x feedback)"
proof -
  have t: "filter (\<lambda>c. type_con c = ''direct'' \<and> itemId (entry1 c) = x) (thematic_drafts feedback) = []"
    by (auto simp: filter_empty_conv dest: type_thematic_drafts)
  have one: "map pair_of (filter (\<lambda>c. type_con c = ''direct'' \<and> itemId (entry1 c) = x)
                (map direct_draft ps)) = filter (\<lambda>ab. itemId (fst ab) = x) ps" for ps
    by (induction ps) (simp_all add: direct_draft_def pair_of_def)
  have conc: "map pair_of (filter (\<lambda>c. type_con c = ''direct'' \<and> itemId (entry1 c) = x)
           (concat (map (\<lambda>k. map direct_draft (direct_pairs (on_item k feedback))) ks))) =
        filter (\<lambda>ab. itemId (fst ab) = x)
          (concat (map (\<lambda>k. direct_pairs (on_item k feedback)) ks))" for ks
    by (induction ks) (simp_all add: one)
  have "map pair_of (filter (\<lambda>c. type_con c = ''direct'' \<and> itemId (entry1 c) = x)
           (direct_drafts feedback)) = direct_pairs (on_item x feedback)"
    unfolding direct_drafts_def conc by (rule direct_pairs_items)
  with t show ?thesis by simp
qed

lemma strip_direct_draft: "strip_id (direct_draft ab) = direct_draft ab"
  by (simp add: strip_id_def direct_draft_def)

lemma strip_direct_drafts: "map strip_id (direct_drafts feedback) = direct_drafts feedback"
  by (simp add: direct_drafts_def map_concat comp_def strip_direct_draft)

lemma strip_axis_drafts: "map strip_id (axis_drafts feedback ab) = axis_drafts feedback ab"
  by (simp add: axis_drafts_def strip_id_def thematic_draft_def)

lemma strip_thematic_drafts: "map strip_id (thematic_drafts feedback) = thematic_drafts feedback"
  by (simp add: thematic_drafts_axes strip_axis_drafts)

lemma strip_drafts: "map strip_id (drafts feedback) = drafts feedback"
  by (simp add: drafts_def strip_direct_drafts strip_thematic_drafts)

lemma length_drafts:
  "length (drafts feedback) =
     length (direct_drafts feedback) + length (filter (both_tagged feedback) pairs)"
  by (simp add: drafts_def thematic_drafts_def length_thematic_drafts)

lemma findContradictions_drafts:
  "no_inherited (getFeedback st projectId) \<Longrightarrow>
   findContradictions uuid st projectId = Inr (with_ids uuid (drafts (getFeedback st projectId)))"
  by (simp add: findContradictions_returns drafts_def)

lemma trim_nonblank: "(trim c \<noteq> []) = nonblank c"
proof -
  have a: "(dropWhile is_space xs \<noteq> []) = (\<exists>x \<in> set xs. \<not> is_space x)" for xs
    by (simp add: dropWhile_eq_Nil_conv)
  have "(trim c \<noteq> []) = (\<exists>x \<in> set (dropWhile is_space c). \<not> is_space x)"
    by (simp add: trim_def a)
  also have "\<dots> = (\<exists>x \<in> set c. \<not> is_space x)"
  proof
    assume "\<exists>x \<in> set (dropWhile is_space c). \<not> is_space x"
    then show "\<exists>x \<in> set c. \<not> is_space x"
      by (meson set_dropWhileD)
  next
    assume "\<exists>x \<in> set c. \<not> is_space x"
    then have "dropWhile is_space c \<noteq> []" by (simp add: a)
    then have "\<not> is_space (hd (dropWhile is_space c))" by (rule hd_dropWhile)
    moreover from \<open>dropWhile is_space c \<noteq> []\<close> have "hd (dropWhile is_space c) \<in> set (dropWhile is_space c)"
      by simp
    ultimately show "\<exists>x \<in> set (dropWhile is_space c). \<not> is_space x" by blast
  qed
  finally show ?thesis
    by (simp add: nonblank_def list_ex_iff)
qed

lemma has_rule_comment_nonblank:
  "(action f = ''revision'' \<and> has_rule_comment f) = rule_bearing f"
proof (cases "comment f")
  case None
  then show ?thesis by (simp add: has_rule_comment_def rule_bearing_def)
next
  case (Some c)
  have "nonblank c \<Longrightarrow> c \<noteq> []" by (auto simp: nonblank_def)
  with Some show ?thesis
    by (auto simp: has_rule_comment_def rule_bearing_def trim_nonblank)
qed

lemma fst_addFeedback: "fst (addFeedback st projectId entry u now) = enrich entry u now"
  by (simp add: addFeedback_def Let_def)

lemma getFeedback_addFeedback:
  "getFeedback (snd (addFeedback st projectId entry u now)) projectId =
     getFeedback st projectId @ [enrich entry u now]"
  by (simp add: addFeedback_def Let_def updatePatterns_def getFeedback_def)

lemma patterns_doc_addFeedback:
  "patterns_doc (snd (addFeedback st projectId entry u now)) projectId =
     Some
       \<lparr>approved = map approval_pattern
          (filter (\<lambda>f. action f = ''approved'') (getFeedback st projectId @ [enrich entry u now])),
        rejected = map approval_pattern
          (filter (\<lambda>f. action f = ''rejected'') (getFeedback st projectId @ [enrich entry u now])),
        rules = map revision_rule
          (filter rule_bearing (getFeedback st projectId @ [enrich entry u now]))\<rparr>"
proof -
  have "filter has_rule_comment (filter (\<lambda>f. action f = ''revision'') l) = filter rule_bearing l" for l
    by (induction l) (use has_rule_comment_nonblank in auto)
  then show ?thesis
    by (simp add: addFeedback_def Let_def updatePatterns_def)
qed

lemma appendAll_snoc:
  "appendAll st projectId (reqs @ later) =
     (fst (appendAll st projectId reqs) @ fst (appendAll (snd (appendAll st projectId reqs)) projectId later),
      snd (appendAll (snd (appendAll st projectId reqs)) projectId later))"
  by (induction reqs arbitrary: st) (simp_all add: split_beta)

lemma fst_appendAll:
  "fst (appendAll st projectId reqs) = map (\<lambda>r. enrich (fst r) (fst (snd r)) (snd (snd r))) reqs"
  by (induction reqs arbitrary: st) (simp_all add: split_beta fst_addFeedback)

lemma getFeedback_appendAll:
  "getFeedback (snd (appendAll st projectId reqs)) projectId =
     getFeedback st projectId @ fst (appendAll st projectId reqs)"
  by (induction reqs arbitrary: st)
     (simp_all add: split_beta fst_addFeedback getFeedback_addFeedback)

lemma patterns_doc_appendAll:
  assumes "reqs \<noteq> []"
  shows "patterns_doc (snd (appendAll st projectId reqs)) projectId =
     Some
       \<lparr>approved = map approval_pattern
          (filter (\<lambda>f. action f = ''approved'') (getFeedback (snd (appendAll st projectId reqs)) projectId)),
        rejected = map approval_pattern
          (filter (\<lambda>f. action f = ''rejected'') (getFeedback (snd (appendAll st projectId reqs)) projectId)),
        rules = map revision_rule
          (filter rule_bearing (getFeedback (snd (appendAll st projectId reqs)) projectId))\<rparr>"
proof -
  from assms obtain front r where reqs: "reqs = front @ [r]"
    by (cases reqs rule: rev_cases) auto
  define st1 where "st1 = snd (appendAll st projectId front)"
  have s: "snd (appendAll st projectId reqs) = snd (addFeedback st1 projectId (fst r) (fst (snd r)) (snd (snd r)))"
    unfolding reqs appendAll_snoc st1_def by (simp add: split_beta)
  show ?thesis
    unfolding s by (simp only: patterns_doc_addFeedback getFeedback_addFeedback)
qed

lemma findIndex_map:
  "findIndex (\<lambda>p. f p = x) ps = findIndex (\<lambda>y. y = x) (map f ps)"
  by (induction ps) simp_all

lemma findIndex_Some: "findIndex P xs = Some i \<Longrightarrow> i < length xs"
  by (induction xs arbitrary: i) (auto split: if_splits option.splits)

lemma map_id_proj_touch:
  "i < length ps \<Longrightarrow> map id_proj (ps[i := (ps ! i)\<lparr>updatedAt_proj := t\<rparr>]) = map id_proj ps"
  by (simp add: map_update list_update_same_conv)

lemma items_doc_setItems:
  "items_doc (setItems st projectId stg items now) =
     (items_doc st)(projectId := (items_doc st projectId)(stg := Some items))"
  by (simp add: setItems_def Let_def split: option.splits)

lemma feedback_doc_setItems: "feedback_doc (setItems st projectId stg items now) = feedback_doc st"
  by (simp add: setItems_def Let_def split: option.splits)

lemma patterns_doc_setItems: "patterns_doc (setItems st projectId stg items now) = patterns_doc st"
  by (simp add: setItems_def Let_def split: option.splits)

lemma getItems_setItems:
  "getItems (setItems st projectId stg items now) p s =
     (if p = projectId \<and> s = stg then items else getItems st p s)"
  by (simp add: getItems_def items_doc_setItems)

lemma fst_addItems:
  "fst (addItems st projectId stg newItems now) =
     getItems st projectId stg @
     filter (\<lambda>i. id_item i \<notin> set (map id_item (getItems st projectId stg))) newItems"
  by (simp add: addItems_def Let_def)

lemma snd_addItems:
  "snd (addItems st projectId stg newItems now) =
     setItems st projectId stg (fst (addItems st projectId stg newItems now)) now"
  by (simp add: addItems_def Let_def)

lemma getItems_addItems:
  "getItems (snd (addItems st projectId stg newItems now)) p s =
     (if p = projectId \<and> s = stg then fst (addItems st projectId stg newItems now)
      else getItems st p s)"
  by (simp add: snd_addItems getItems_setItems)

lemma addItems_again:
  "fst (addItems (snd (addItems st projectId stg newItems now)) projectId stg newItems now') =
     fst (addItems st projectId stg newItems now)"
proof -
  let ?old = "getItems st projectId stg"
  let ?upd = "fst (addItems st projectId stg newItems now)"
  have "id_item i \<in> set (map id_item ?upd)" if "i \<in> set newItems" for i
    using that by (auto simp: fst_addItems)
  then have "filter (\<lambda>i. id_item i \<notin> set (map id_item ?upd)) newItems = []"
    by (simp add: filter_empty_conv)
  then show ?thesis
    by (simp add: fst_addItems [of "snd (addItems st projectId stg newItems now)"] getItems_addItems)
qed

lemma setItems_twice:
  "setItems (setItems st projectId stg items now) projectId stg items now =
     setItems st projectId stg items now"
proof (cases "findIndex (\<lambda>p. id_proj p = projectId) (listProjects st)")
  case None
  then show ?thesis
    by (simp add: setItems_def Let_def listProjects_def)
next
  case (Some idx)
  let ?ps = "listProjects st"
  let ?ps' = "?ps[idx := (?ps ! idx)\<lparr>updatedAt_proj := now\<rparr>]"
  have i: "idx < length ?ps" using Some by (rule findIndex_Some)
  have same: "findIndex (\<lambda>p. id_proj p = projectId) ?ps' = Some idx"
    using Some i by (simp add: findIndex_map [of id_proj] map_id_proj_touch)
  have again: "?ps'[idx := (?ps' ! idx)\<lparr>updatedAt_proj := now\<rparr>] = ?ps'"
    using i by simp
  have first: "setItems st projectId stg items now =
      st\<lparr>items_doc := (items_doc st)(projectId := (items_doc st projectId)(stg := Some items)),
         projects_doc := Some ?ps'\<rparr>"
    using Some by (simp add: setItems_def Let_def listProjects_def)
  show ?thesis
    unfolding first
    using same again by (simp add: setItems_def Let_def listProjects_def)
qed

lemma distinct_addItems:
  assumes "distinct (map id_item (getItems st projectId stg))"
    and "distinct (map id_item newItems)"
  shows "distinct (map id_item (fst (addItems st projectId stg newItems now)))"
proof -
  let ?old = "getItems st projectId stg"
  let ?add = "filter (\<lambda>i. id_item i \<notin> set (map id_item ?old)) newItems"
  have "distinct (map id_item ?add)"
    using assms(2) by (rule distinct_map_filter)
  moreover have "x \<notin> set (map id_item ?old)" if "x \<in> set (map id_item ?add)" for x
  proof -
    from that obtain i where "i \<in> set ?add" and "x = id_item i" by auto
    then show ?thesis by simp
  qed
  then have "set (map id_item ?old) \<inter> set (map id_item ?add) = {}"
    by blast
  ultimately have "distinct (map id_item ?old @ map id_item ?add)"
    using assms(1) by (simp only: distinct_append simp_thms)
  then show ?thesis
    by (simp add: fst_addItems)
qed

lemma generate_scripts_Some:
  "\<forall>i < length cs. generate (k + i) (cs ! i) \<noteq> None \<Longrightarrow>
   \<exists>out. generate_scripts generate uuid now k cs acc = Some out"
proof (induction cs arbitrary: k acc)
  case Nil
  then show ?case by simp
next
  case (Cons c cs)
  from Cons.prems have "generate (k + 0) ((c # cs) ! 0) \<noteq> None" by blast
  then obtain r where r: "generate k c = Some r" by auto
  have "\<forall>i < length cs. generate (Suc k + i) (cs ! i) \<noteq> None"
  proof (intro allI impI)
    fix i assume "i < length cs"
    then have "generate (k + Suc i) ((c # cs) ! Suc i) \<noteq> None"
      using Cons.prems by (metis Suc_less_eq length_Cons)
    then show "generate (Suc k + i) (cs ! i) \<noteq> None" by simp
  qed
  from Cons.IH [OF this] r show ?case by simp
qed

lemma generate_scripts_parentId:
  "generate_scripts generate uuid now k cs acc = Some out \<Longrightarrow>
   map parentId out = map parentId acc @ map (\<lambda>c. Some (id_item c)) cs"
  by (induction cs arbitrary: k acc) (auto simp: script_item_def split: option.splits)

lemma generate_scripts_ids:
  "generate_scripts generate uuid now k cs acc = Some out \<Longrightarrow>
   map id_item out = map id_item acc @ map uuid [k ..< k + length cs]"
proof (induction cs arbitrary: k acc)
  case Nil
  then show ?case by simp
next
  case (Cons c cs)
  then obtain r where r: "generate k c = Some r"
    and rest: "generate_scripts generate uuid now (Suc k) cs (acc @ [script_item c r (uuid k) (now k)]) = Some out"
    by (auto split: option.splits)
  have "[k ..< k + length (c # cs)] = k # [Suc k ..< Suc k + length cs]"
    by (simp add: upt_conv_Cons del: upt_Suc)
  with Cons.IH [OF rest] show ?case
    by (simp add: script_item_def del: upt_Suc)
qed

lemma toGenerate_eligible:
  "filter (\<lambda>c. Some (id_item c) \<notin> set (map parentId (getItems st projectId Scripts)))
     (filter (\<lambda>c. status c = ''approved'') (getItems st projectId Concepts)) =
   eligible st projectId"
  by (simp add: eligible_def conj_commute)

lemma scripts_batch_unfold:
  "projectId \<noteq> [] \<Longrightarrow>
   scripts_batch generate uuid now st (Some projectId) =
     (if eligible st projectId = [] then (AlreadyHave (getItems st projectId Scripts), st)
      else
        (case generate_scripts generate uuid now 0 (eligible st projectId) [] of
           None \<Rightarrow> (ServerError, st)
         | Some generated \<Rightarrow>
             (Generated
                (fst (addItems st projectId Scripts generated (now (length (eligible st projectId)))))
                (length generated),
              snd (addItems st projectId Scripts generated (now (length (eligible st projectId)))))))"
  unfolding scripts_batch_def Let_def toGenerate_eligible
  by (simp add: split_beta split: option.splits)

lemma eligible_after:
  assumes scripts: "getItems st1 projectId Scripts = getItems st projectId Scripts @ generated"
    and conceptItems: "getItems st1 projectId Concepts = getItems st projectId Concepts"
    and parents: "map parentId generated = map (\<lambda>c. Some (id_item c)) (eligible st projectId)"
  shows "eligible st1 projectId = []"
proof -
  have "Some (id_item c) \<in> set (map parentId (getItems st projectId Scripts @ generated))"
    if c: "c \<in> set (getItems st projectId Concepts)" and a: "status c = ''approved''" for c
  proof (cases "Some (id_item c) \<in> set (map parentId (getItems st projectId Scripts))")
    case True
    then show ?thesis by simp
  next
    case False
    with c a have "c \<in> set (eligible st projectId)"
      by (simp add: eligible_def)
    then have "Some (id_item c) \<in> set (map (\<lambda>c. Some (id_item c)) (eligible st projectId))"
      by auto
    with parents show ?thesis by simp
  qed
  then show ?thesis
    unfolding eligible_def scripts conceptItems by (auto simp: filter_empty_conv)
qed

lemma findIndex_None: "findIndex P xs = None \<Longrightarrow> x \<in> set xs \<Longrightarrow> \<not> P x"
  by (induction xs) (auto split: if_splits option.splits)

lemma findIndex_first:
  "findIndex P xs = Some i \<Longrightarrow> i < length xs \<and> P (xs ! i) \<and> (\<forall>j < i. \<not> P (xs ! j))"
proof (induction xs arbitrary: i)
  case Nil
  then show ?case by simp
next
  case (Cons x xs)
  show ?case
  proof (cases "P x")
    case True
    with Cons.prems show ?thesis by simp
  next
    case False
    with Cons.prems obtain k where k: "findIndex P xs = Some k" and i: "i = Suc k"
      by (auto split: option.splits)
    from Cons.IH [OF k] have "k < length xs" "P (xs ! k)" "\<forall>j < k. \<not> P (xs ! j)"
      by simp_all
    with False i show ?thesis
      by (auto simp: less_Suc_eq_0_disj)
  qed
qed

lemma is_first_conv:
  "is_first projectId ps i =
     (i < length ps \<and> id_proj (ps ! i) = projectId \<and> (\<forall>j < i. id_proj (ps ! j) \<noteq> projectId))"
  by (auto simp: is_first_def list_all_length)

lemma projects_setItems:
  "length (listProjects (setItems st projectId stg items t)) = length (listProjects st)
   \<and> (projects_doc (setItems st projectId stg items t) = None) = (projects_doc st = None)
   \<and> (\<forall>i < length (listProjects st).
         listProjects (setItems st projectId stg items t) ! i =
           (if is_first projectId (listProjects st) i
            then (listProjects st ! i)\<lparr>updatedAt_proj := t\<rparr>
            else listProjects st ! i))"
proof (cases "findIndex (\<lambda>p. id_proj p = projectId) (listProjects st)")
  case None
  then have same: "projects_doc (setItems st projectId stg items t) = projects_doc st"
    by (simp add: setItems_def Let_def listProjects_def)
  have "\<not> is_first projectId (listProjects st) i" for i
  proof
    assume f: "is_first projectId (listProjects st) i"
    then have "listProjects st ! i \<in> set (listProjects st)"
      by (simp add: is_first_def)
    from findIndex_None [OF None this] f show False
      by (simp add: is_first_def)
  qed
  with same show ?thesis
    by (simp add: listProjects_def)
next
  case (Some idx)
  let ?ps = "listProjects st"
  from findIndex_first [OF Some] have idx: "idx < length ?ps"
    and hit: "id_proj (?ps ! idx) = projectId"
    and before: "\<forall>j < idx. id_proj (?ps ! j) \<noteq> projectId"
    by simp_all
  have doc: "projects_doc (setItems st projectId stg items t) =
      Some (?ps[idx := (?ps ! idx)\<lparr>updatedAt_proj := t\<rparr>])"
    using Some by (simp add: setItems_def Let_def listProjects_def)
  then have lp: "listProjects (setItems st projectId stg items t) =
      ?ps[idx := (?ps ! idx)\<lparr>updatedAt_proj := t\<rparr>]"
    by (simp add: listProjects_def)
  have some: "projects_doc st \<noteq> None"
    using idx by (cases "projects_doc st") (simp_all add: listProjects_def)
  have first: "is_first projectId ?ps i = (i = idx)" if "i < length ?ps" for i
    unfolding is_first_conv
  proof
    assume f: "i < length ?ps \<and> id_proj (?ps ! i) = projectId \<and>
      (\<forall>j < i. id_proj (?ps ! j) \<noteq> projectId)"
    show "i = idx"
    proof (rule ccontr)
      assume "i \<noteq> idx"
      then consider "i < idx" | "idx < i" by linarith
      then show False
      proof cases
        case 1
        with before f show False by simp
      next
        case 2
        with hit f show False by auto
      qed
    qed
  next
    assume "i = idx"
    with idx hit before show "i < length ?ps \<and> id_proj (?ps ! i) = projectId \<and>
      (\<forall>j < i. id_proj (?ps ! j) \<noteq> projectId)"
      by simp
  qed
  show ?thesis
    unfolding lp using doc some first by (auto simp: nth_list_update)
qed

section \<open>The detector on ledgers free of inherited keys\<close>

text \<open>
  On a ledger none of whose item ids is a property name of \<open>Object.prototype\<close>
  the detector returns. For every item, its direct contradictions are then, one
  each and in loop order, the pairs of positions \<open>i < j\<close> among all the entries
  on the item whose actions are an approval and a rejection in either order; its
  thematic contradictions are those of the axes with evidence on both sides, in
  the order of the axes, each on the last tagged entry of either side.
\<close>

lemma direct_pairs_emitted:
  assumes "no_inherited (getFeedback st projectId)"
  shows "\<exists>cs. findContradictions uuid st projectId = Inr cs \<and>
           map pair_of (filter (\<lambda>c. type_con c = ''direct'' \<and> itemId (entry1 c) = x) cs) =
             direct_pairs (on_item x (getFeedback st projectId))"
proof -
  let ?P = "\<lambda>c. type_con c = ''direct'' \<and> itemId (entry1 c) = x"
  let ?cs = "with_ids uuid (drafts (getFeedback st projectId))"
  have "map pair_of (filter ?P ?cs) = map pair_of (map strip_id (filter ?P ?cs))"
    by (simp add: comp_def)
  also have "\<dots> = map pair_of (filter ?P (map strip_id ?cs))"
    by (subst filter_strip) simp_all
  also have "\<dots> = map pair_of (filter ?P (drafts (getFeedback st projectId)))"
    by (simp only: strip_with_ids strip_drafts)
  also have "\<dots> = direct_pairs (on_item x (getFeedback st projectId))"
    by (simp only: drafts_def filter_direct_item_drafts)
  finally show ?thesis
    using findContradictions_drafts [OF assms] by blast
qed

lemma thematic_pairs_emitted:
  assumes "no_inherited (getFeedback st projectId)"
  shows "\<exists>cs. findContradictions uuid st projectId = Inr cs \<and>
           map pair_of (filter (\<lambda>c. type_con c = ''thematic'') cs) =
             map (\<lambda>ab. (last (tagged (getFeedback st projectId) (fst ab)),
                         last (tagged (getFeedback st projectId) (snd ab))))
               (filter (both_tagged (getFeedback st projectId)) pairs)"
proof -
  let ?P = "\<lambda>c. type_con c = ''thematic''"
  let ?cs = "with_ids uuid (drafts (getFeedback st projectId))"
  have "map pair_of (filter ?P ?cs) = map pair_of (map strip_id (filter ?P ?cs))"
    by (simp add: comp_def)
  also have "\<dots> = map pair_of (filter ?P (map strip_id ?cs))"
    by (subst filter_strip) simp_all
  also have "\<dots> = map pair_of (filter ?P (drafts (getFeedback st projectId)))"
    by (simp only: strip_with_ids strip_drafts)
  also have "\<dots> = map pair_of (thematic_drafts (getFeedback st projectId))"
    by (simp only: drafts_def filter_thematic_drafts)
  finally show ?thesis
    using findContradictions_drafts [OF assms] by (simp add: thematic_drafts_def pair_of_axis_drafts)
qed

text \<open>
  The scenarios of the specification on the item \<open>X\<close>: approved, commented,
  rejected gives the one direct contradiction of the entries at 1 and 3; two
  too-long comments alone give nothing, and with an Expand comment the one thematic
  contradiction; shorter at 1 and 3 and longer at 2 give the thematic contradiction
  of the entries at 3 and 2.
\<close>

lemma detector_scenarios:
  "map_sum id (map (\<lambda>c. (type_con c, pair_of c)))
       (findContradictions uuid_a (ledger_store ledger_direct) ''P'') =
     Inr [(''direct'', entry_at 1 ''approved'' None, entry_at 3 ''rejected'' None)]
   \<and> findContradictions uuid_a (ledger_store ledger_one_side) ''P'' = Inr []
   \<and> map_sum id (map (\<lambda>c. (type_con c, pair_of c)))
       (findContradictions uuid_a (ledger_store ledger_both_sides) ''P'') =
     Inr [(''thematic'', entry_at 2 ''revision'' (Some ''Still TOO LONG for a reel''),
           entry_at 3 ''commented'' (Some ''Expand the ending''))]
   \<and> map_sum id (map (\<lambda>c. (type_con c, pair_of c)))
       (findContradictions uuid_a (ledger_store ledger_recent) ''P'') =
     Inr [(''thematic'', entry_at 3 ''commented'' (Some ''trim the intro''),
           entry_at 2 ''commented'' (Some ''make it longer''))]"
  by code_simp

section \<open>The claims\<close>




text \<open>
  C4. After a non-empty run of appends to a project's ledger, the persisted
  pattern summary is: \<open>approved\<close>, the entries of the ledger with action approved,
  in order, each reduced to title, stage, comment and timestamp; \<open>rejected\<close>, the
  same for action rejected; \<open>rules\<close>, the revision entries whose comment is
  non-empty after trimming, in order, each reduced to from, rule and timestamp.
  The ledger is the one before the run followed by the entries appended. The
  white space that \<open>trim\<close> removes is, among the code units below 256, tab, line
  feed, vertical tab, form feed, carriage return, space and no-break space.
\<close>

theorem patterns_follow_ledger:
  assumes "reqs \<noteq> []"
  shows "patterns_doc (snd (appendAll st projectId reqs)) projectId =
     Some
       \<lparr>approved =
          map (\<lambda>f. \<lparr>title_pat = itemTitle f, stage_pat = stage f, comment_pat = comment f,
                     timestamp_pat = timestamp f\<rparr>)
            (filter (\<lambda>f. action f = ''approved'')
               (getFeedback (snd (appendAll st projectId reqs)) projectId)),
        rejected =
          map (\<lambda>f. \<lparr>title_pat = itemTitle f, stage_pat = stage f, comment_pat = comment f,
                     timestamp_pat = timestamp f\<rparr>)
            (filter (\<lambda>f. action f = ''rejected'')
               (getFeedback (snd (appendAll st projectId reqs)) projectId)),
        rules =
          map (\<lambda>f. \<lparr>from_rule = itemTitle f,
                     rule_text = (case comment f of None \<Rightarrow> [] | Some c \<Rightarrow> c),
                     timestamp_rule = timestamp f\<rparr>)
            (filter rule_bearing (getFeedback (snd (appendAll st projectId reqs)) projectId))\<rparr>
   \<and> getPatterns (snd (appendAll st projectId reqs)) projectId =
       the (patterns_doc (snd (appendAll st projectId reqs)) projectId)
   \<and> getFeedback (snd (appendAll st projectId reqs)) projectId =
       getFeedback st projectId @
       map (\<lambda>r. enrich (fst r) (fst (snd r)) (snd (snd r))) reqs"
proof -
  have a: "approval_pattern = (\<lambda>f. \<lparr>title_pat = itemTitle f, stage_pat = stage f,
      comment_pat = comment f, timestamp_pat = timestamp f\<rparr>)"
    by (rule ext) (simp add: approval_pattern_def)
  have r: "revision_rule = (\<lambda>f. \<lparr>from_rule = itemTitle f,
      rule_text = (case comment f of None \<Rightarrow> [] | Some c \<Rightarrow> c), timestamp_rule = timestamp f\<rparr>)"
    by (rule ext) (simp add: revision_rule_def)
  have p: "patterns_doc (snd (appendAll st projectId reqs)) projectId =
     Some
       \<lparr>approved = map approval_pattern
          (filter (\<lambda>f. action f = ''approved'') (getFeedback (snd (appendAll st projectId reqs)) projectId)),
        rejected = map approval_pattern
          (filter (\<lambda>f. action f = ''rejected'') (getFeedback (snd (appendAll st projectId reqs)) projectId)),
        rules = map revision_rule
          (filter rule_bearing (getFeedback (snd (appendAll st projectId reqs)) projectId))\<rparr>"
    by (rule patterns_doc_appendAll [OF assms])
  have g: "getPatterns (snd (appendAll st projectId reqs)) projectId =
       the (patterns_doc (snd (appendAll st projectId reqs)) projectId)"
    by (simp add: getPatterns_def p)
  have l: "getFeedback (snd (appendAll st projectId reqs)) projectId =
       getFeedback st projectId @
       map (\<lambda>r. enrich (fst r) (fst (snd r)) (snd (snd r))) reqs"
    by (simp only: getFeedback_appendAll fst_appendAll)
  from p g l show ?thesis
    unfolding a r by blast
qed

text \<open>
  Five appends to a fresh store: an approval, a revision with a comment of two
  spaces, a revision with a comment, a rejection, and a revision whose comment is
  a no-break space, a space and a tab.
\<close>

theorem patterns_follow_ledger_witness:
  "requests_nbsp \<noteq> []
   \<and> getPatterns (snd (appendAll empty_store ''P'' requests_nbsp)) ''P'' =
     \<lparr>approved =
        [\<lparr>title_pat = ''Hook A'', stage_pat = ''concepts'', comment_pat = Some ''love it'',
          timestamp_pat = 1\<rparr>],
      rejected =
        [\<lparr>title_pat = ''Hook A'', stage_pat = ''concepts'', comment_pat = None,
          timestamp_pat = 4\<rparr>],
      rules =
        [\<lparr>from_rule = ''Hook A'', rule_text = ''Shorter hook'', timestamp_rule = 3\<rparr>]\<rparr>"
proof -
  have ne: "requests_nbsp \<noteq> []"
    by (simp add: requests_nbsp_def)
  let ?l = "getFeedback empty_store ''P'' @
       map (\<lambda>r. enrich (fst r) (fst (snd r)) (snd (snd r))) requests_nbsp"
  have v: "\<lparr>approved =
          map (\<lambda>f. \<lparr>title_pat = itemTitle f, stage_pat = stage f, comment_pat = comment f,
                     timestamp_pat = timestamp f\<rparr>)
            (filter (\<lambda>f. action f = ''approved'') ?l),
        rejected =
          map (\<lambda>f. \<lparr>title_pat = itemTitle f, stage_pat = stage f, comment_pat = comment f,
                     timestamp_pat = timestamp f\<rparr>)
            (filter (\<lambda>f. action f = ''rejected'') ?l),
        rules =
          map (\<lambda>f. \<lparr>from_rule = itemTitle f,
                     rule_text = (case comment f of None \<Rightarrow> [] | Some c \<Rightarrow> c),
                     timestamp_rule = timestamp f\<rparr>)
            (filter rule_bearing ?l)\<rparr> =
     \<lparr>approved =
        [\<lparr>title_pat = ''Hook A'', stage_pat = ''concepts'', comment_pat = Some ''love it'',
          timestamp_pat = 1\<rparr>],
      rejected =
        [\<lparr>title_pat = ''Hook A'', stage_pat = ''concepts'', comment_pat = None,
          timestamp_pat = 4\<rparr>],
      rules =
        [\<lparr>from_rule = ''Hook A'', rule_text = ''Shorter hook'', timestamp_rule = 3\<rparr>]\<rparr>"
    by code_simp
  from patterns_follow_ledger [OF ne, of empty_store "''P''"] v ne show ?thesis
    by simp
qed

text \<open>
  C5. After a run of appends the ledger is the one before the run followed by the
  entries the appends returned, in order; a longer run only extends it; each
  append returns the entry it stored, which has the caller's fields, the caller's
  id and timestamp where given, and otherwise the id of \<open>uuid()\<close> and the timestamp
  of \<open>Date.now()\<close>.
\<close>

theorem ledger_append_only:
  "getFeedback (snd (appendAll st projectId reqs)) projectId =
     getFeedback st projectId @ fst (appendAll st projectId reqs)
   \<and> fst (appendAll st projectId reqs) =
       map (\<lambda>r. enrich (fst r) (fst (snd r)) (snd (snd r))) reqs
   \<and> prefix (getFeedback (snd (appendAll st projectId reqs)) projectId)
       (getFeedback (snd (appendAll st projectId (reqs @ later))) projectId)
   \<and> fst (addFeedback st projectId entry u now) =
       last (getFeedback (snd (addFeedback st projectId entry u now)) projectId)
   \<and> (id_in entry = None \<longrightarrow> id_fb (fst (addFeedback st projectId entry u now)) = u)
   \<and> (timestamp_in entry = None \<longrightarrow> timestamp (fst (addFeedback st projectId entry u now)) = now)
   \<and> (\<forall>i. id_in entry = Some i \<and> i \<noteq> [] \<longrightarrow>
         id_fb (fst (addFeedback st projectId entry u now)) = i)
   \<and> (\<forall>t. timestamp_in entry = Some t \<and> t \<noteq> 0 \<longrightarrow>
         timestamp (fst (addFeedback st projectId entry u now)) = t)
   \<and> itemId (fst (addFeedback st projectId entry u now)) = itemId_in entry
   \<and> itemTitle (fst (addFeedback st projectId entry u now)) = itemTitle_in entry
   \<and> stage (fst (addFeedback st projectId entry u now)) = stage_in entry
   \<and> action (fst (addFeedback st projectId entry u now)) = action_in entry
   \<and> comment (fst (addFeedback st projectId entry u now)) = comment_in entry"
proof -
  have "prefix (getFeedback (snd (appendAll st projectId reqs)) projectId)
       (getFeedback (snd (appendAll st projectId (reqs @ later))) projectId)"
    by (simp add: getFeedback_appendAll appendAll_snoc)
  then show ?thesis
    by (simp add: getFeedback_appendAll fst_appendAll fst_addFeedback getFeedback_addFeedback
        enrich_def)
qed

text \<open>
  Five appends to a fresh store, the last with its own id and timestamp; and an
  append without id and timestamp, which gets those of \<open>uuid()\<close> and
  \<open>Date.now()\<close>.
\<close>

theorem ledger_append_only_witness:
  "getFeedback (snd (appendAll empty_store ''P'' (requests_ex @ [request_given]))) ''P'' =
     [\<lparr>id_fb = ''ax'', itemId = ''X'', itemTitle = ''Hook A'', stage = ''concepts'',
       action = ''approved'', comment = Some ''love it'', timestamp = 1\<rparr>,
      \<lparr>id_fb = ''axx'', itemId = ''X'', itemTitle = ''Hook A'', stage = ''concepts'',
       action = ''revision'', comment = Some ''  '', timestamp = 2\<rparr>,
      \<lparr>id_fb = ''axxx'', itemId = ''X'', itemTitle = ''Hook A'', stage = ''concepts'',
       action = ''revision'', comment = Some ''Shorter hook'', timestamp = 3\<rparr>,
      \<lparr>id_fb = ''axxxx'', itemId = ''X'', itemTitle = ''Hook A'', stage = ''concepts'',
       action = ''rejected'', comment = None, timestamp = 4\<rparr>,
      \<lparr>id_fb = ''mine'', itemId = ''X'', itemTitle = ''Hook A'', stage = ''concepts'',
       action = ''commented'', comment = Some ''nice'', timestamp = 7\<rparr>]
   \<and> id_in (fst (request_at 1 ''approved'' None)) = None
   \<and> id_fb (fst (addFeedback empty_store ''P'' (fst (request_at 1 ''approved'' None)) ''u'' 5)) = ''u''
   \<and> timestamp_in (fst (request_at 1 ''approved'' None)) = None
   \<and> timestamp (fst (addFeedback empty_store ''P'' (fst (request_at 1 ''approved'' None)) ''u'' 5)) = 5"
proof -
  let ?reqs = "requests_ex @ [request_given]"
  have v: "getFeedback empty_store ''P'' @
      map (\<lambda>r. enrich (fst r) (fst (snd r)) (snd (snd r))) ?reqs =
     [\<lparr>id_fb = ''ax'', itemId = ''X'', itemTitle = ''Hook A'', stage = ''concepts'',
       action = ''approved'', comment = Some ''love it'', timestamp = 1\<rparr>,
      \<lparr>id_fb = ''axx'', itemId = ''X'', itemTitle = ''Hook A'', stage = ''concepts'',
       action = ''revision'', comment = Some ''  '', timestamp = 2\<rparr>,
      \<lparr>id_fb = ''axxx'', itemId = ''X'', itemTitle = ''Hook A'', stage = ''concepts'',
       action = ''revision'', comment = Some ''Shorter hook'', timestamp = 3\<rparr>,
      \<lparr>id_fb = ''axxxx'', itemId = ''X'', itemTitle = ''Hook A'', stage = ''concepts'',
       action = ''rejected'', comment = None, timestamp = 4\<rparr>,
      \<lparr>id_fb = ''mine'', itemId = ''X'', itemTitle = ''Hook A'', stage = ''concepts'',
       action = ''commented'', comment = Some ''nice'', timestamp = 7\<rparr>]"
    by code_simp
  have n: "id_in (fst (request_at 1 ''approved'' None)) = None"
    "timestamp_in (fst (request_at 1 ''approved'' None)) = None"
    by (simp_all add: request_at_def)
  note t = ledger_append_only
    [of empty_store "''P''" ?reqs "[]" "fst (request_at 1 ''approved'' None)" "''u''" 5]
  from t have "getFeedback (snd (appendAll empty_store ''P'' ?reqs)) ''P'' =
      getFeedback empty_store ''P'' @ map (\<lambda>r. enrich (fst r) (fst (snd r)) (snd (snd r))) ?reqs"
    by (simp only:)
  with v have l: "getFeedback (snd (appendAll empty_store ''P'' ?reqs)) ''P'' =
     [\<lparr>id_fb = ''ax'', itemId = ''X'', itemTitle = ''Hook A'', stage = ''concepts'',
       action = ''approved'', comment = Some ''love it'', timestamp = 1\<rparr>,
      \<lparr>id_fb = ''axx'', itemId = ''X'', itemTitle = ''Hook A'', stage = ''concepts'',
       action = ''revision'', comment = Some ''  '', timestamp = 2\<rparr>,
      \<lparr>id_fb = ''axxx'', itemId = ''X'', itemTitle = ''Hook A'', stage = ''concepts'',
       action = ''revision'', comment = Some ''Shorter hook'', timestamp = 3\<rparr>,
      \<lparr>id_fb = ''axxxx'', itemId = ''X'', itemTitle = ''Hook A'', stage = ''concepts'',
       action = ''rejected'', comment = None, timestamp = 4\<rparr>,
      \<lparr>id_fb = ''mine'', itemId = ''X'', itemTitle = ''Hook A'', stage = ''concepts'',
       action = ''commented'', comment = Some ''nice'', timestamp = 7\<rparr>]"
    by (simp only:)
  from t n have i: "id_fb (fst (addFeedback empty_store ''P'' (fst (request_at 1 ''approved'' None)) ''u'' 5)) = ''u''"
    by blast
  from t n have ts: "timestamp (fst (addFeedback empty_store ''P'' (fst (request_at 1 ''approved'' None)) ''u'' 5)) = 5"
    by blast
  from l n i ts show ?thesis
    by (simp only: simp_thms)
qed

text \<open>
  C6. Take a batch run of script generation in which every call of \<open>generate\<close>
  answers and \<open>uuid()\<close> returns no id of a stored script. The run appends one script
  for each selected concept, in order, with the concept's id as \<open>parentId\<close>, the
  selected concepts being the approved ones that are not yet the parent of a
  script; after it no concept is selected, and a second run, whatever its
  \<open>generate\<close>, \<open>uuid()\<close> and clock, answers with the stored scripts and leaves
  the store as it is.
\<close>

theorem scripts_batch_idempotent:
  assumes pid: "projectId \<noteq> []"
    and gen: "\<forall>k < length (eligible st projectId). generate k (eligible st projectId ! k) \<noteq> None"
    and fresh: "\<forall>k < length (eligible st projectId).
                  uuid k \<notin> set (map id_item (getItems st projectId Scripts))"
  shows "\<exists>generated.
     getItems (snd (scripts_batch generate uuid now st (Some projectId))) projectId Scripts =
       getItems st projectId Scripts @ generated
     \<and> map parentId generated = map (\<lambda>c. Some (id_item c)) (eligible st projectId)
     \<and> fst (scripts_batch generate uuid now st (Some projectId)) =
         (if eligible st projectId = [] then AlreadyHave (getItems st projectId Scripts)
          else Generated (getItems st projectId Scripts @ generated)
                 (length (eligible st projectId)))
     \<and> eligible (snd (scripts_batch generate uuid now st (Some projectId))) projectId = []
     \<and> scripts_batch generate' uuid' now'
         (snd (scripts_batch generate uuid now st (Some projectId))) (Some projectId) =
         (AlreadyHave (getItems st projectId Scripts @ generated),
          snd (scripts_batch generate uuid now st (Some projectId)))"
proof (cases "eligible st projectId = []")
  case True
  then have run: "scripts_batch generate uuid now st (Some projectId) =
      (AlreadyHave (getItems st projectId Scripts), st)"
    by (simp add: scripts_batch_unfold [OF pid])
  have again: "scripts_batch generate' uuid' now' st (Some projectId) =
      (AlreadyHave (getItems st projectId Scripts), st)"
    using True by (simp add: scripts_batch_unfold [OF pid])
  show ?thesis
    by (rule exI [of _ "[]"]) (simp add: run again True)
next
  case False
  let ?sel = "eligible st projectId"
  let ?old = "getItems st projectId Scripts"
  from gen have "\<forall>i < length ?sel. generate (0 + i) (?sel ! i) \<noteq> None" by simp
  from generate_scripts_Some [OF this] obtain out
    where out: "generate_scripts generate uuid now 0 ?sel [] = Some out" by blast
  have parents: "map parentId out = map (\<lambda>c. Some (id_item c)) ?sel"
    using generate_scripts_parentId [OF out] by simp
  have ids: "map id_item out = map uuid [0 ..< length ?sel]"
    using generate_scripts_ids [OF out] by simp
  have len: "length out = length ?sel"
    using parents by (metis length_map)
  have "id_item i \<notin> set (map id_item ?old)" if "i \<in> set out" for i
  proof -
    from that have "id_item i \<in> set (map id_item out)" by simp
    then obtain k where "k < length ?sel" and "id_item i = uuid k"
      unfolding ids by auto
    with fresh show ?thesis by simp
  qed
  then have keep: "filter (\<lambda>i. id_item i \<notin> set (map id_item ?old)) out = out"
    by (simp add: filter_id_conv)
  let ?st1 = "snd (addItems st projectId Scripts out (now (length ?sel)))"
  have upd: "fst (addItems st projectId Scripts out (now (length ?sel))) = ?old @ out"
    by (simp only: fst_addItems keep)
  have run: "scripts_batch generate uuid now st (Some projectId) =
      (Generated (?old @ out) (length ?sel), ?st1)"
    using False by (simp add: scripts_batch_unfold [OF pid] out upd len)
  have s1: "getItems ?st1 projectId Scripts = ?old @ out"
    by (simp add: getItems_addItems upd)
  have c1: "getItems ?st1 projectId Concepts = getItems st projectId Concepts"
    by (simp add: getItems_addItems)
  have none: "eligible ?st1 projectId = []"
    by (rule eligible_after [OF s1 c1 parents])
  have again: "scripts_batch generate' uuid' now' ?st1 (Some projectId) =
      (AlreadyHave (?old @ out), ?st1)"
    using none s1 by (simp add: scripts_batch_unfold [OF pid])
  show ?thesis
    by (rule exI [of _ out]) (simp add: run again none s1 parents False)
qed

text \<open>
  Concepts A and B approved, C pending, no scripts: the run stores two scripts, for
  A and for B, and the second run generates nothing.
\<close>

theorem scripts_batch_idempotent_witness:
  "map parentId
     (getItems (snd (scripts_batch generate_ok uuid_a clock concepts_store (Some ''P''))) ''P'' Scripts) =
     [Some ''A'', Some ''B'']
   \<and> eligible concepts_store ''P'' = [item_at ''A'' ''approved'', item_at ''B'' ''approved'']
   \<and> eligible (snd (scripts_batch generate_ok uuid_a clock concepts_store (Some ''P''))) ''P'' = []
   \<and> scripts_batch generate_ok uuid_b clock
       (snd (scripts_batch generate_ok uuid_a clock concepts_store (Some ''P''))) (Some ''P'') =
       (AlreadyHave
          (getItems (snd (scripts_batch generate_ok uuid_a clock concepts_store (Some ''P''))) ''P'' Scripts),
        snd (scripts_batch generate_ok uuid_a clock concepts_store (Some ''P'')))"
proof -
  have sel: "eligible concepts_store ''P'' = [item_at ''A'' ''approved'', item_at ''B'' ''approved'']"
    by code_simp
  have old: "getItems concepts_store ''P'' Scripts = []"
    by code_simp
  have pid: "''P'' \<noteq> []" by simp
  have gen: "\<forall>k < length (eligible concepts_store ''P'').
      generate_ok k (eligible concepts_store ''P'' ! k) \<noteq> None"
    by (simp add: generate_ok_def)
  have fresh: "\<forall>k < length (eligible concepts_store ''P'').
      uuid_a k \<notin> set (map id_item (getItems concepts_store ''P'' Scripts))"
    by (simp add: old)
  from scripts_batch_idempotent
    [where projectId = "''P''" and st = concepts_store and generate = generate_ok
       and uuid = uuid_a and now = clock and generate' = generate_ok and uuid' = uuid_b
       and now' = clock, OF pid gen fresh]
  obtain generated where
    g: "getItems (snd (scripts_batch generate_ok uuid_a clock concepts_store (Some ''P''))) ''P'' Scripts =
       getItems concepts_store ''P'' Scripts @ generated"
    and p: "map parentId generated = map (\<lambda>c. Some (id_item c)) (eligible concepts_store ''P'')"
    and e: "eligible (snd (scripts_batch generate_ok uuid_a clock concepts_store (Some ''P''))) ''P'' = []"
    and a: "scripts_batch generate_ok uuid_b clock
         (snd (scripts_batch generate_ok uuid_a clock concepts_store (Some ''P''))) (Some ''P'') =
         (AlreadyHave (getItems concepts_store ''P'' Scripts @ generated),
          snd (scripts_batch generate_ok uuid_a clock concepts_store (Some ''P'')))"
    by blast
  have "map parentId generated = [Some ''A'', Some ''B'']"
    unfolding p sel by (simp add: item_at_def)
  with g old have "map parentId
     (getItems (snd (scripts_batch generate_ok uuid_a clock concepts_store (Some ''P''))) ''P'' Scripts) =
     [Some ''A'', Some ''B'']"
    by simp
  moreover from a g have "scripts_batch generate_ok uuid_b clock
       (snd (scripts_batch generate_ok uuid_a clock concepts_store (Some ''P''))) (Some ''P'') =
       (AlreadyHave
          (getItems (snd (scripts_batch generate_ok uuid_a clock concepts_store (Some ''P''))) ''P'' Scripts),
        snd (scripts_batch generate_ok uuid_a clock concepts_store (Some ''P'')))"
    by simp
  ultimately show ?thesis
    using sel e by (intro conjI)
qed

text \<open>
  C7, as the code has it. Each contradiction carries a fresh \<open>uuid()\<close>, so two
  runs on one ledger differ in the identifiers. On a ledger free of inherited keys
  the detector returns, and apart from the identifiers the result is a function of
  the ledger: the direct contradictions first, item by item in the order
  \<open>Object.values\<close> lists the items, then the thematic ones in the order
  shorter/longer, lighter/darker, grounded/absurd; the identifiers are the results
  of \<open>uuid()\<close> in the order of the calls.
\<close>

theorem findContradictions_deterministic_up_to_ids:
  assumes "no_inherited (getFeedback st projectId)"
  shows "findContradictions uuid1 st projectId =
       Inr (with_ids uuid1 (drafts (getFeedback st projectId)))
   \<and> findContradictions uuid2 st projectId =
       Inr (with_ids uuid2 (drafts (getFeedback st projectId)))
   \<and> map strip_id (with_ids uuid1 (drafts (getFeedback st projectId))) =
       drafts (getFeedback st projectId)
   \<and> map strip_id (with_ids uuid2 (drafts (getFeedback st projectId))) =
       drafts (getFeedback st projectId)
   \<and> map id_con (with_ids uuid1 (drafts (getFeedback st projectId))) =
       map uuid1 [0 ..< length (drafts (getFeedback st projectId))]
   \<and> drafts (getFeedback st projectId) =
       direct_drafts (getFeedback st projectId) @
       axis_drafts (getFeedback st projectId) (''shorter'', ''longer'') @
       axis_drafts (getFeedback st projectId) (''lighter'', ''darker'') @
       axis_drafts (getFeedback st projectId) (''grounded'', ''absurd'')
   \<and> list_all (\<lambda>c. type_con c = ''direct'') (direct_drafts (getFeedback st projectId))
   \<and> list_all (\<lambda>c. type_con c = ''thematic'') (axis_drafts (getFeedback st projectId) ab)"
proof -
  let ?l = "getFeedback st projectId"
  have d: "list_all (\<lambda>c. type_con c = ''direct'') (direct_drafts ?l)"
    by (auto simp: list_all_iff dest: type_direct_drafts)
  have t: "list_all (\<lambda>c. type_con c = ''thematic'') (axis_drafts ?l ab)"
    by (auto simp: list_all_iff dest: type_axis_drafts)
  have o: "drafts ?l =
       direct_drafts ?l @
       axis_drafts ?l (''shorter'', ''longer'') @
       axis_drafts ?l (''lighter'', ''darker'') @
       axis_drafts ?l (''grounded'', ''absurd'')"
    by (simp add: drafts_def thematic_drafts_axes)
  have s: "map strip_id (with_ids u (drafts ?l)) = drafts ?l" for u
    by (simp only: strip_with_ids strip_drafts)
  have i: "map id_con (with_ids uuid1 (drafts ?l)) = map uuid1 [0 ..< length (drafts ?l)]"
    by (rule id_con_with_ids)
  from findContradictions_drafts [OF assms, of uuid1] findContradictions_drafts [OF assms, of uuid2]
    s [of uuid1] s [of uuid2] i o d t
  show ?thesis
    by (intro conjI)
qed

text \<open>
  The ledger on the items \<open>b\<close>, \<open>2\<close> and \<open>1\<close>, each approved and then rejected,
  under two runs of \<open>uuid()\<close>: both runs return the contradictions of the items
  1, 2 and b in this order, and differ in the identifiers only.
\<close>

theorem findContradictions_deterministic_up_to_ids_witness:
  "no_inherited (getFeedback (ledger_store ledger_order) ''P'')
   \<and> map_sum id (map (\<lambda>c. (id_con c, itemId (entry1 c), type_con c)))
       (findContradictions uuid_a (ledger_store ledger_order) ''P'') =
       Inr [(''a'', ''1'', ''direct''), (''ax'', ''2'', ''direct''), (''axx'', ''b'', ''direct'')]
   \<and> map_sum id (map (\<lambda>c. (id_con c, itemId (entry1 c), type_con c)))
       (findContradictions uuid_b (ledger_store ledger_order) ''P'') =
       Inr [(''b'', ''1'', ''direct''), (''bx'', ''2'', ''direct''), (''bxx'', ''b'', ''direct'')]"
proof -
  let ?l = "getFeedback (ledger_store ledger_order) ''P''"
  have h: "no_inherited ?l"
    by code_simp
  have a: "map (\<lambda>c. (id_con c, itemId (entry1 c), type_con c)) (with_ids uuid_a (drafts ?l)) =
      [(''a'', ''1'', ''direct''), (''ax'', ''2'', ''direct''), (''axx'', ''b'', ''direct'')]"
    by code_simp
  have b: "map (\<lambda>c. (id_con c, itemId (entry1 c), type_con c)) (with_ids uuid_b (drafts ?l)) =
      [(''b'', ''1'', ''direct''), (''bx'', ''2'', ''direct''), (''bxx'', ''b'', ''direct'')]"
    by code_simp
  note t = findContradictions_deterministic_up_to_ids
    [OF h, of uuid_a uuid_b "(''shorter'', ''longer'')"]
  from t have ra: "findContradictions uuid_a (ledger_store ledger_order) ''P'' =
      Inr (with_ids uuid_a (drafts ?l))"
    by (simp only:)
  from t have rb: "findContradictions uuid_b (ledger_store ledger_order) ''P'' =
      Inr (with_ids uuid_b (drafts ?l))"
    by (simp only:)
  show ?thesis
    unfolding ra rb using h a b by simp
qed

text \<open>
  C7 as stated fails: on the ledger approved then rejected, two runs whose
  \<open>uuid()\<close> differ return different results.
\<close>

theorem findContradictions_not_pure_counterexample:
  "findContradictions uuid_a (ledger_store ledger_flip) ''P'' \<noteq>
   findContradictions uuid_b (ledger_store ledger_flip) ''P''"
  by code_simp

text \<open>
  C8, as the code has it. On a ledger free of inherited keys \<open>getFullContext\<close>
  returns the project, the three item lists, the ledger, the stored pattern
  summary, the contradictions of \<open>findContradictions\<close> and a summary of six
  numbers: the size of the ledger, the numbers of approved, rejected and revision
  entries, the number of contradictions and the number of rules of the stored
  pattern summary; there is no count of commented entries. The number of
  contradictions is the number of direct pairs plus the number of axes with
  evidence on both sides.
\<close>

theorem summary_counts:
  assumes "no_inherited (getFeedback st projectId)"
  shows "getFullContext uuid st projectId =
     Inr \<lparr>project_ctx = getProject st projectId,
          strategies_ctx = getItems st projectId Strategies,
          concepts_ctx = getItems st projectId Concepts,
          scripts_ctx = getItems st projectId Scripts,
          feedback_ctx = getFeedback st projectId,
          patterns_ctx = getPatterns st projectId,
          contradictions_ctx = with_ids uuid (drafts (getFeedback st projectId)),
          summary_ctx =
            \<lparr>totalFeedback = length (getFeedback st projectId),
             approvedCount =
               length (filter (\<lambda>f. action f = ''approved'') (getFeedback st projectId)),
             rejectedCount =
               length (filter (\<lambda>f. action f = ''rejected'') (getFeedback st projectId)),
             revisionCount =
               length (filter (\<lambda>f. action f = ''revision'') (getFeedback st projectId)),
             activeContradictions = length (drafts (getFeedback st projectId)),
             learnedRules = length (rules (getPatterns st projectId))\<rparr>\<rparr>
   \<and> findContradictions uuid st projectId =
       Inr (with_ids uuid (drafts (getFeedback st projectId)))
   \<and> length (drafts (getFeedback st projectId)) =
       length (direct_drafts (getFeedback st projectId)) +
       length (filter (both_tagged (getFeedback st projectId)) pairs)"
  using findContradictions_drafts [OF assms, of uuid]
  by (simp add: getFullContext_def Let_def length_with_ids length_drafts)

text \<open>
  The ledger of two too-long comments, one of them a revision, and an Expand
  comment, in a store without a pattern summary.
\<close>

theorem summary_counts_witness:
  "no_inherited (getFeedback (ledger_store ledger_both_sides) ''P'')
   \<and> map_sum id summary_ctx (getFullContext uuid_a (ledger_store ledger_both_sides) ''P'') =
     Inr \<lparr>totalFeedback = 3, approvedCount = 0, rejectedCount = 0, revisionCount = 1,
          activeContradictions = 1, learnedRules = 0\<rparr>"
proof -
  let ?st = "ledger_store ledger_both_sides"
  have h: "no_inherited (getFeedback ?st ''P'')"
    by code_simp
  have v: "\<lparr>totalFeedback = length (getFeedback ?st ''P''),
      approvedCount = length (filter (\<lambda>f. action f = ''approved'') (getFeedback ?st ''P'')),
      rejectedCount = length (filter (\<lambda>f. action f = ''rejected'') (getFeedback ?st ''P'')),
      revisionCount = length (filter (\<lambda>f. action f = ''revision'') (getFeedback ?st ''P'')),
      activeContradictions = length (drafts (getFeedback ?st ''P'')),
      learnedRules = length (rules (getPatterns ?st ''P''))\<rparr> =
     \<lparr>totalFeedback = 3, approvedCount = 0, rejectedCount = 0, revisionCount = 1,
      activeContradictions = 1, learnedRules = 0\<rparr>"
    by code_simp
  from summary_counts [OF h, of uuid_a] have
    "map_sum id summary_ctx (getFullContext uuid_a ?st ''P'') =
      Inr \<lparr>totalFeedback = length (getFeedback ?st ''P''),
      approvedCount = length (filter (\<lambda>f. action f = ''approved'') (getFeedback ?st ''P'')),
      rejectedCount = length (filter (\<lambda>f. action f = ''rejected'') (getFeedback ?st ''P'')),
      revisionCount = length (filter (\<lambda>f. action f = ''revision'') (getFeedback ?st ''P'')),
      activeContradictions = length (drafts (getFeedback ?st ''P'')),
      learnedRules = length (rules (getPatterns ?st ''P''))\<rparr>"
    by simp
  with v h show ?thesis
    by (simp only: simp_thms)
qed

text \<open>
  C8 as stated fails: with two commented entries and one approved entry the six
  numbers of the summary are 3, 1, 0, 0, 0 and 0, none of them the number of
  commented entries, which is 2.
\<close>

theorem summary_no_commented_count_counterexample:
  "commentedCount (getFeedback (ledger_store ledger_counts) ''P'') = 2
   \<and> map_sum id summary_ctx (getFullContext uuid_a (ledger_store ledger_counts) ''P'') =
       Inr \<lparr>totalFeedback = 3, approvedCount = 1, rejectedCount = 0, revisionCount = 0,
            activeContradictions = 0, learnedRules = 0\<rparr>"
  by code_simp

text \<open>
  C9. A ledger with the single comment "Too dark, go darker": the entry is tagged
  under lighter and under darker, and the one contradiction emitted is the
  thematic one of the axis lighter/darker, with the entry on both sides.
\<close>

theorem single_comment_contradicts_itself:
  "getFeedback (ledger_store ledger_self) ''P'' = [entry_at 1 ''commented'' (Some ''Too dark, go darker'')]
   \<and> is_tagged ''lighter'' (entry_at 1 ''commented'' (Some ''Too dark, go darker''))
   \<and> is_tagged ''darker'' (entry_at 1 ''commented'' (Some ''Too dark, go darker''))
   \<and> map_sum id (map strip_id) (findContradictions uuid_a (ledger_store ledger_self) ''P'') =
       Inr (axis_drafts ledger_self (''lighter'', ''darker''))
   \<and> map_sum id (map type_con) (findContradictions uuid_a (ledger_store ledger_self) ''P'') =
       Inr [''thematic'']
   \<and> map_sum id (map pair_of) (findContradictions uuid_a (ledger_store ledger_self) ''P'') =
       Inr [(entry_at 1 ''commented'' (Some ''Too dark, go darker''),
             entry_at 1 ''commented'' (Some ''Too dark, go darker''))]"
  by code_simp

text \<open>
  C10, as the code has it. \<open>addItems\<close> appends the new items whose id is not the id
  of a stored item, after the stored items and in their order. A second call with
  the same items adds nothing: it leaves the item, feedback and pattern documents
  as they were, and in the project index it changes nothing but the \<open>updatedAt\<close>
  of the first project with the given id, which becomes the \<open>Date.now()\<close> of the
  call. The ids stay pairwise distinct when they were distinct before and the ids
  of the new items are pairwise distinct.
\<close>

theorem addItems_skips_known_ids:
  "fst (addItems st projectId stg newItems now) =
     getItems st projectId stg @
     filter (\<lambda>i. id_item i \<notin> set (map id_item (getItems st projectId stg))) newItems
   \<and> getItems (snd (addItems st projectId stg newItems now)) projectId stg =
       fst (addItems st projectId stg newItems now)
   \<and> fst (addItems (snd (addItems st projectId stg newItems now)) projectId stg newItems now') =
       fst (addItems st projectId stg newItems now)
   \<and> items_doc (snd (addItems (snd (addItems st projectId stg newItems now)) projectId stg newItems now')) =
       items_doc (snd (addItems st projectId stg newItems now))
   \<and> feedback_doc (snd (addItems (snd (addItems st projectId stg newItems now)) projectId stg newItems now')) =
       feedback_doc (snd (addItems st projectId stg newItems now))
   \<and> patterns_doc (snd (addItems (snd (addItems st projectId stg newItems now)) projectId stg newItems now')) =
       patterns_doc (snd (addItems st projectId stg newItems now))
   \<and> (projects_doc (snd (addItems (snd (addItems st projectId stg newItems now)) projectId stg newItems now')) = None) =
       (projects_doc (snd (addItems st projectId stg newItems now)) = None)
   \<and> length (listProjects (snd (addItems (snd (addItems st projectId stg newItems now)) projectId stg newItems now'))) =
       length (listProjects (snd (addItems st projectId stg newItems now)))
   \<and> (\<forall>i < length (listProjects (snd (addItems st projectId stg newItems now))).
         listProjects (snd (addItems (snd (addItems st projectId stg newItems now)) projectId stg newItems now')) ! i =
           (if is_first projectId (listProjects (snd (addItems st projectId stg newItems now))) i
            then (listProjects (snd (addItems st projectId stg newItems now)) ! i)\<lparr>updatedAt_proj := now'\<rparr>
            else listProjects (snd (addItems st projectId stg newItems now)) ! i))
   \<and> snd (addItems (snd (addItems st projectId stg newItems now)) projectId stg newItems now) =
       snd (addItems st projectId stg newItems now)
   \<and> (distinct (map id_item (getItems st projectId stg)) \<and> distinct (map id_item newItems) \<longrightarrow>
        distinct (map id_item (fst (addItems st projectId stg newItems now))))"
proof -
  let ?st1 = "snd (addItems st projectId stg newItems now)"
  let ?upd = "fst (addItems st projectId stg newItems now)"
  have again: "fst (addItems ?st1 projectId stg newItems t) = ?upd" for t
    by (rule addItems_again)
  have st1: "?st1 = setItems st projectId stg ?upd now"
    by (rule snd_addItems)
  have st2: "snd (addItems ?st1 projectId stg newItems t) = setItems ?st1 projectId stg ?upd t" for t
    by (simp only: snd_addItems [of ?st1] again)
  have same: "snd (addItems ?st1 projectId stg newItems now) = ?st1"
    unfolding st2 by (subst (1 2) st1) (rule setItems_twice)
  have i1: "items_doc ?st1 = (items_doc st)(projectId := (items_doc st projectId)(stg := Some ?upd))"
    by (subst st1) (rule items_doc_setItems)
  have items: "items_doc (snd (addItems ?st1 projectId stg newItems now')) = items_doc ?st1"
    unfolding st2 by (simp add: items_doc_setItems i1)
  have fb: "feedback_doc (snd (addItems ?st1 projectId stg newItems now')) = feedback_doc ?st1"
    by (simp only: st2 feedback_doc_setItems)
  have pt: "patterns_doc (snd (addItems ?st1 projectId stg newItems now')) = patterns_doc ?st1"
    by (simp only: st2 patterns_doc_setItems)
  note pr = projects_setItems [of ?st1 projectId stg ?upd now', folded st2]
  from pr have pr1: "(projects_doc (snd (addItems ?st1 projectId stg newItems now')) = None) =
      (projects_doc ?st1 = None)"
    by (rule conjunct1 [OF conjunct2])
  from pr have pr2: "length (listProjects (snd (addItems ?st1 projectId stg newItems now'))) =
      length (listProjects ?st1)"
    by (rule conjunct1)
  from pr have pr3: "\<forall>i < length (listProjects ?st1).
         listProjects (snd (addItems ?st1 projectId stg newItems now')) ! i =
           (if is_first projectId (listProjects ?st1) i
            then (listProjects ?st1 ! i)\<lparr>updatedAt_proj := now'\<rparr>
            else listProjects ?st1 ! i)"
    by (rule conjunct2 [OF conjunct2])
  have stored: "getItems ?st1 projectId stg = ?upd"
    by (simp add: getItems_addItems)
  have dist: "distinct (map id_item (getItems st projectId stg)) \<and> distinct (map id_item newItems) \<longrightarrow>
        distinct (map id_item ?upd)"
    using distinct_addItems by blast
  from fst_addItems stored again [of now'] items fb pt pr1 pr2 pr3 same dist show ?thesis
    by (intro conjI)
qed

text \<open>
  Adding B and D to the concepts A, B, C adds D only, once; in the index of the
  projects Q and P the second call leaves Q as it is and stamps P.
\<close>

theorem addItems_skips_known_ids_witness:
  "map id_item
     (fst (addItems shared_store ''P'' Concepts
        [item_at ''B'' ''pending'', item_at ''D'' ''pending''] 5)) = [''A'', ''B'', ''C'', ''D'']
   \<and> map id_item
     (fst (addItems
        (snd (addItems shared_store ''P'' Concepts
           [item_at ''B'' ''pending'', item_at ''D'' ''pending''] 5))
        ''P'' Concepts [item_at ''B'' ''pending'', item_at ''D'' ''pending''] 6)) =
     [''A'', ''B'', ''C'', ''D'']
   \<and> distinct (map id_item
     (fst (addItems shared_store ''P'' Concepts
        [item_at ''B'' ''pending'', item_at ''D'' ''pending''] 5)))
   \<and> listProjects
       (snd (addItems
          (snd (addItems shared_store ''P'' Concepts
             [item_at ''B'' ''pending'', item_at ''D'' ''pending''] 5))
          ''P'' Concepts [item_at ''B'' ''pending'', item_at ''D'' ''pending''] 6)) ! 0 =
       \<lparr>id_proj = ''Q'', name_proj = ''Other'', brandData = [], createdAt_proj = 1,
        updatedAt_proj = 1\<rparr>
   \<and> listProjects
       (snd (addItems
          (snd (addItems shared_store ''P'' Concepts
             [item_at ''B'' ''pending'', item_at ''D'' ''pending''] 5))
          ''P'' Concepts [item_at ''B'' ''pending'', item_at ''D'' ''pending''] 6)) ! 1 =
       \<lparr>id_proj = ''P'', name_proj = ''Demo'', brandData = [], createdAt_proj = 1,
        updatedAt_proj = 6\<rparr>"
proof -
  let ?new = "[item_at ''B'' ''pending'', item_at ''D'' ''pending'']"
  let ?st1 = "snd (addItems shared_store ''P'' Concepts ?new 5)"
  let ?st2 = "snd (addItems ?st1 ''P'' Concepts ?new 6)"
  note t = addItems_skips_known_ids [of shared_store "''P''" Concepts ?new 5 6]
  have v: "map id_item (getItems shared_store ''P'' Concepts @
      filter (\<lambda>i. id_item i \<notin> set (map id_item (getItems shared_store ''P'' Concepts))) ?new) =
      [''A'', ''B'', ''C'', ''D'']"
    by code_simp
  have d: "distinct (map id_item (getItems shared_store ''P'' Concepts)) \<and>
      distinct (map id_item ?new)"
    by code_simp
  have ps: "listProjects ?st1 =
      [\<lparr>id_proj = ''Q'', name_proj = ''Other'', brandData = [], createdAt_proj = 1,
        updatedAt_proj = 1\<rparr>,
       \<lparr>id_proj = ''P'', name_proj = ''Demo'', brandData = [], createdAt_proj = 1,
        updatedAt_proj = 5\<rparr>]"
    by code_simp
  from t have one: "fst (addItems shared_store ''P'' Concepts ?new 5) =
      getItems shared_store ''P'' Concepts @
      filter (\<lambda>i. id_item i \<notin> set (map id_item (getItems shared_store ''P'' Concepts))) ?new"
    by (simp only:)
  from t have two: "fst (addItems ?st1 ''P'' Concepts ?new 6) =
      fst (addItems shared_store ''P'' Concepts ?new 5)"
    by (simp only:)
  from t d have three: "distinct (map id_item (fst (addItems shared_store ''P'' Concepts ?new 5)))"
    by blast
  from t have each: "\<forall>i < length (listProjects ?st1).
         listProjects ?st2 ! i =
           (if is_first ''P'' (listProjects ?st1) i
            then (listProjects ?st1 ! i)\<lparr>updatedAt_proj := 6\<rparr>
            else listProjects ?st1 ! i)"
    by (elim conjE)
  have q: "listProjects ?st2 ! 0 =
       \<lparr>id_proj = ''Q'', name_proj = ''Other'', brandData = [], createdAt_proj = 1,
        updatedAt_proj = 1\<rparr>"
    using each [rule_format, of 0] by (simp add: ps is_first_def)
  have p: "listProjects ?st2 ! 1 =
       \<lparr>id_proj = ''P'', name_proj = ''Demo'', brandData = [], createdAt_proj = 1,
        updatedAt_proj = 6\<rparr>"
    using each [rule_format, of 1] by (simp add: ps is_first_def)
  from v one two three q p show ?thesis
    by (simp only: simp_thms)
qed

text \<open>
  C10 as stated fails: two new items with the same unknown id are both appended,
  so distinct ids do not stay distinct; and the second call refreshes the
  project's \<open>updatedAt\<close>, so the store is not the one after the first call.
\<close>

theorem addItems_duplicate_ids_counterexample:
  "distinct (map id_item (getItems concepts_store ''P'' Scripts))
   \<and> \<not> distinct (map id_item
        (fst (addItems concepts_store ''P'' Scripts
           [item_at ''D'' ''pending'', item_at ''D'' ''pending''] 5)))
   \<and> projects_doc
       (snd (addItems
          (snd (addItems concepts_store ''P'' Scripts [item_at ''D'' ''pending''] 5))
          ''P'' Scripts [item_at ''D'' ''pending''] 6)) \<noteq>
     projects_doc (snd (addItems concepts_store ''P'' Scripts [item_at ''D'' ''pending''] 5))"
  by code_simp

end
